theory Spec2Isabelle
  imports Complex_Main "HOL-Library.AList"
begin

section \<open>Strings, numbers and errors of the host language\<close>

text \<open>
  A JavaScript string is a sequence of UTF-16 code units; a code unit is modelled as a
  natural number.  \<open>str\<close> turns an ASCII literal into such a sequence.
\<close>

type_synonym jsstring = "nat list"

definition str :: "string \<Rightarrow> jsstring" where
  "str s = map of_char s"

text \<open>Exceptions are values: every \<open>throw\<close> of the host becomes \<open>Inl\<close> of one of these.\<close>

datatype error = TypeError | URIError | RangeError | FailedToParseJSON

text \<open>\<open>String(n)\<close> for an integer \<open>n\<close>: the decimal digits, with a minus sign when negative.\<close>

fun digits :: "nat \<Rightarrow> jsstring" where
  "digits n = (if n < 10 then [48 + n] else digits (n div 10) @ [48 + n mod 10])"

declare digits.simps [simp del]

definition String_of :: "int \<Rightarrow> jsstring" where
  "String_of i = (if i < 0 then 45 # digits (nat (- i)) else digits (nat i))"

text \<open>\<open>s.padStart(2, '0')\<close>.\<close>

definition padStart2 :: "jsstring \<Rightarrow> jsstring" where
  "padStart2 s = (if length s < 2 then replicate (2 - length s) 48 @ s else s)"

section \<open>The host's Date\<close>

text \<open>
  A \<open>Date\<close> is its time value: milliseconds on the local time scale.  The source only
  uses the local-time getters and setters, so the model takes the local time zone to have a
  constant offset and counts milliseconds from local 1970-01-01 00:00.  Day numbers and
  civil dates are converted as ECMAScript's \<open>MakeDay\<close> and \<open>YearFromTime\<close> do
  (proleptic Gregorian calendar).
\<close>

definition msPerDay :: int where
  "msPerDay = 86400000"

definition days_from_civil :: "int \<Rightarrow> int \<Rightarrow> int \<Rightarrow> int" where
  "days_from_civil y m d =
     (let y1 = (if m \<le> 2 then y - 1 else y);
          era = y1 div 400;
          yoe = y1 - era * 400;
          doy = (153 * (if m > 2 then m - 3 else m + 9) + 2) div 5 + d - 1;
          doe = yoe * 365 + yoe div 4 - yoe div 100 + doy
      in era * 146097 + doe - 719468)"

definition civil_from_days :: "int \<Rightarrow> int \<times> int \<times> int" where
  "civil_from_days z =
     (let z1 = z + 719468;
          era = z1 div 146097;
          doe = z1 - era * 146097;
          yoe = (doe - doe div 1460 + doe div 36524 - doe div 146096) div 365;
          doy = doe - (365 * yoe + yoe div 4 - yoe div 100);
          mp = (5 * doy + 2) div 153;
          d = doy - (153 * mp + 2) div 5 + 1;
          m = (if mp < 10 then mp + 3 else mp - 9);
          y = yoe + era * 400
      in (if m \<le> 2 then y + 1 else y, m, d))"

text \<open>\<open>new Date(year, monthIndex, day)\<close>: local midnight; years 0..99 mean 1900..1999,
  and a day or month out of range carries over.\<close>

definition Date_ymd :: "int \<Rightarrow> int \<Rightarrow> int \<Rightarrow> int" where
  "Date_ymd y mi d =
     (let yr = (if 0 \<le> y \<and> y \<le> 99 then 1900 + y else y)
      in (days_from_civil (yr + mi div 12) (mi mod 12 + 1) 1 + d - 1) * msPerDay)"

definition dayNumber :: "int \<Rightarrow> int" where
  "dayNumber t = t div msPerDay"

definition timeInDay :: "int \<Rightarrow> int" where
  "timeInDay t = t mod msPerDay"

definition getFullYear :: "int \<Rightarrow> int" where
  "getFullYear t = fst (civil_from_days (dayNumber t))"

definition getMonth :: "int \<Rightarrow> int" where
  "getMonth t = fst (snd (civil_from_days (dayNumber t))) - 1"

definition getDate :: "int \<Rightarrow> int" where
  "getDate t = snd (snd (civil_from_days (dayNumber t)))"

definition getHours :: "int \<Rightarrow> int" where
  "getHours t = timeInDay t div 3600000"

definition getMinutes :: "int \<Rightarrow> int" where
  "getMinutes t = timeInDay t mod 3600000 div 60000"

definition getSeconds :: "int \<Rightarrow> int" where
  "getSeconds t = timeInDay t mod 60000 div 1000"

definition getDay :: "int \<Rightarrow> int" where
  "getDay t = (dayNumber t + 4) mod 7"

text \<open>\<open>d.setDate(n)\<close> keeps the month and the time of day and moves to day \<open>n\<close> of the
  month, carrying over; \<open>d.setMonth(0, n)\<close> moves to day \<open>n\<close> of January of the same year.\<close>

definition setDate :: "int \<Rightarrow> int \<Rightarrow> int" where
  "setDate t n = t + (n - getDate t) * msPerDay"

definition setMonth0 :: "int \<Rightarrow> int \<Rightarrow> int" where
  "setMonth0 t n = (days_from_civil (getFullYear t) 1 1 + n - 1) * msPerDay + timeInDay t"

text \<open>\<open>Math.ceil(a / b)\<close> for integers \<open>a\<close> and positive \<open>b\<close>.\<close>

definition ceil_div :: "int \<Rightarrow> int \<Rightarrow> int" where
  "ceil_div a b = - ((- a) div b)"

section \<open>Parser: week arithmetic\<close>

text \<open>\<open>Parser.getISOWeek\<close> (parser.js, lines 208-218).\<close>

definition getISOWeek :: "int \<Rightarrow> int" where
  "getISOWeek date =
     (let dayNr = (getDay date + 6) mod 7;
          target = setDate date (getDate date - dayNr + 3);
          firstThursday = target;
          target1 = setMonth0 target 1;
          target2 = (if getDay target1 \<noteq> 4
                     then setMonth0 target1 (1 + ((4 - getDay target1) + 7) mod 7)
                     else target1)
      in 1 + ceil_div (firstThursday - target2) 604800000)"

text \<open>\<open>Parser.getWeekDateRange\<close> (parser.js, lines 226-243): the pair \<open>(start, end)\<close>.\<close>

definition getWeekDateRange :: "int \<Rightarrow> int \<Rightarrow> int \<times> int" where
  "getWeekDateRange yr wk =
     (let simple = Date_ymd yr 0 (1 + (wk - 1) * 7);
          dow = getDay simple;
          ISOweekStart = (if dow \<le> 4
                          then setDate simple (getDate simple - getDay simple + 1)
                          else setDate simple (getDate simple + 8 - getDay simple));
          ISOweekEnd = setDate ISOweekStart (getDate ISOweekStart + 6)
      in (ISOweekStart, ISOweekEnd))"

section \<open>Normalized messages\<close>

text \<open>
  A parsed JSON value.  An object is the list of its properties in insertion order.
\<close>

datatype json =
    JNull
  | JBool bool
  | JNum rat
  | JStr jsstring
  | JArr "json list"
  | JObj "(jsstring \<times> json) list"

datatype msgtype = Text | Link | Media | Sticker | Empty

text \<open>
  The object built by \<open>Parser.parseMessage\<close>.  The field \<open>from\<close> of the source is
  \<open>sender\<close> here and \<open>type\<close> is \<open>mtype\<close>; \<open>sender\<close> holds whatever truthy JSON
  value the element carried.  The date of a message is a valid \<open>Date\<close>: a \<open>Date\<close>
  string the host cannot parse gives NaN in every numeric field and is outside the model.
\<close>

record message =
  date :: int
  timestamp :: int
  sender :: json
  content :: jsstring
  mtype :: msgtype
  week :: int
  year :: int
  month :: int
  day :: int
  hour :: int
  dayOfWeek :: int

text \<open>The object literal of \<open>parseMessage\<close> (parser.js, lines 129-142).\<close>

definition messageOf :: "int \<Rightarrow> json \<Rightarrow> jsstring \<Rightarrow> msgtype \<Rightarrow> message" where
  "messageOf d f processedContent messageType =
     \<lparr> date = d, timestamp = d, sender = f, content = processedContent,
       mtype = messageType, week = getISOWeek d, year = getFullYear d,
       month = getMonth d, day = getDate d, hour = getHours d, dayOfWeek = getDay d \<rparr>"

section \<open>Processor: clustering by weeks and months\<close>

record weekCluster =
  wyear :: int
  wweek :: int
  wmessages :: "message list"
  wcount :: nat
  dateRange :: "(int \<times> int) option"

text \<open>
  A JavaScript object used as a dictionary with string keys that are not array indices is
  an association list in insertion order: \<open>map_of\<close> reads a key, \<open>AList.update\<close>
  overwrites it in place or appends it.
\<close>

definition weekKeyOf :: "message \<Rightarrow> jsstring" where
  "weekKeyOf msg = String_of (year msg) @ str ''-W'' @ padStart2 (String_of (week msg))"

text \<open>The body of the first loop of \<open>clusterByWeeks\<close> (part_000, lines 72-87).\<close>

definition addMessage ::
  "message \<Rightarrow> (jsstring \<times> weekCluster) list \<Rightarrow> (jsstring \<times> weekCluster) list" where
  "addMessage msg weeks =
     (let key = weekKeyOf msg;
          weeks1 = (case map_of weeks key of
                      None \<Rightarrow> AList.update key
                                \<lparr> wyear = year msg, wweek = week msg, wmessages = [],
                                  wcount = 0, dateRange = None \<rparr> weeks
                    | Some _ \<Rightarrow> weeks)
      in case map_of weeks1 key of
           None \<Rightarrow> weeks1
         | Some w \<Rightarrow> AList.update key
                       (w\<lparr> wmessages := wmessages w @ [msg], wcount := wcount w + 1 \<rparr>) weeks1)"

text \<open>\<open>Processor.clusterByWeeks\<close> (part_000, lines 69-97).\<close>

definition clusterByWeeks :: "message list \<Rightarrow> (jsstring \<times> weekCluster) list" where
  "clusterByWeeks messages =
     map (\<lambda>(key, weekData).
            (key, weekData\<lparr> dateRange :=
                    Some (getWeekDateRange (wyear weekData) (wweek weekData)) \<rparr>))
         (fold addMessage messages [])"

record monthGroup =
  myear :: int
  mmonth :: int
  weeks :: "(jsstring \<times> weekCluster) list"
  totalMessages :: nat
  monthName :: "jsstring option"

text \<open>\<open>Processor.getMonthName\<close>: \<open>undefined\<close> (here \<open>None\<close>) outside 0..11.\<close>

definition monthNames :: "jsstring list" where
  "monthNames = map str [''January'', ''February'', ''March'', ''April'', ''May'', ''June'',
     ''July'', ''August'', ''September'', ''October'', ''November'', ''December'']"

definition getMonthName :: "int \<Rightarrow> jsstring option" where
  "getMonthName monthIndex =
     (if 0 \<le> monthIndex \<and> monthIndex < 12 then Some (monthNames ! nat monthIndex) else None)"

text \<open>\<open>Array.prototype.sort\<close> is a stable sort; \<open>cmp a b < 0\<close> puts \<open>a\<close> first, and
  elements that compare equal keep their order.\<close>

fun insertBy :: "('a \<Rightarrow> 'a \<Rightarrow> int) \<Rightarrow> 'a \<Rightarrow> 'a list \<Rightarrow> 'a list" where
  "insertBy cmp x [] = [x]"
| "insertBy cmp x (y # ys) = (if cmp y x < 0 then y # insertBy cmp x ys else x # y # ys)"

definition sortBy :: "('a \<Rightarrow> 'a \<Rightarrow> int) \<Rightarrow> 'a list \<Rightarrow> 'a list" where
  "sortBy cmp xs = foldr (insertBy cmp) xs []"

definition compareWeeks :: "(jsstring \<times> weekCluster) \<Rightarrow> (jsstring \<times> weekCluster) \<Rightarrow> int" where
  "compareWeeks a b =
     (if wyear (snd a) = wyear (snd b) then wweek (snd a) - wweek (snd b)
      else wyear (snd a) - wyear (snd b))"

text \<open>The body of the first loop of \<open>groupIntoMonths\<close> (part_000, lines 107-131).\<close>

definition addWeek ::
  "(jsstring \<times> weekCluster) \<Rightarrow> (jsstring \<times> monthGroup) list \<Rightarrow> (jsstring \<times> monthGroup) list"
  where
  "addWeek kw months =
     (case wmessages (snd kw) of
        [] \<Rightarrow> months
      | firstMsg # _ \<Rightarrow>
          (let monthKey = String_of (year firstMsg) @ str ''-''
                            @ padStart2 (String_of (month firstMsg + 1));
               months1 = (case map_of months monthKey of
                            None \<Rightarrow> AList.update monthKey
                                      \<lparr> myear = year firstMsg, mmonth = month firstMsg,
                                        weeks = [], totalMessages = 0,
                                        monthName = getMonthName (month firstMsg) \<rparr> months
                          | Some _ \<Rightarrow> months)
           in case map_of months1 monthKey of
                None \<Rightarrow> months1
              | Some mo \<Rightarrow> AList.update monthKey
                             (mo\<lparr> weeks := weeks mo @ [kw],
                                 totalMessages := totalMessages mo + wcount (snd kw) \<rparr>)
                             months1))"

text \<open>\<open>Processor.groupIntoMonths\<close> (part_000, lines 104-141).\<close>

definition groupIntoMonths ::
  "(jsstring \<times> weekCluster) list \<Rightarrow> (jsstring \<times> monthGroup) list" where
  "groupIntoMonths weekClusters =
     map (\<lambda>(monthKey, mo). (monthKey, mo\<lparr> weeks := sortBy compareWeeks (weeks mo) \<rparr>))
         (fold addWeek weekClusters [])"

section \<open>Clustering conserves messages\<close>
















section \<open>Processor: message bursts\<close>

text \<open>
  \<open>Processor.detectMessageBursts\<close> (part_000, lines 465-507).  The state of the loop is
  the list of bursts found so far and the current run.  Time differences are exact rational
  numbers of minutes.
\<close>

record burst =
  bstart :: int
  bend :: int
  messageCount :: nat
  duration :: rat

definition BURST_THRESHOLD :: rat where
  "BURST_THRESHOLD = 30"

definition MIN_BURST_SIZE :: nat where
  "MIN_BURST_SIZE = 5"

definition burstOf :: "message list \<Rightarrow> burst" where
  "burstOf currentBurst =
     \<lparr> bstart = date (hd currentBurst),
       bend = date (last currentBurst),
       messageCount = length currentBurst,
       duration = of_int (timestamp (last currentBurst) - timestamp (hd currentBurst)) / (1000 * 60) \<rparr>"

fun burstLoop :: "message list \<Rightarrow> burst list \<Rightarrow> message list \<Rightarrow> burst list \<times> message list" where
  "burstLoop [] bursts currentBurst = (bursts, currentBurst)"
| "burstLoop (m # ms) bursts currentBurst =
     (if length currentBurst = 0 then burstLoop ms bursts [m]
      else
        let lastMsg = last currentBurst;
            timeDiff = of_int (timestamp m - timestamp lastMsg) / (1000 * 60)
        in if timeDiff \<le> BURST_THRESHOLD then burstLoop ms bursts (currentBurst @ [m])
           else burstLoop ms
                  (if length currentBurst \<ge> MIN_BURST_SIZE then bursts @ [burstOf currentBurst]
                   else bursts)
                  [m])"

definition detectMessageBursts :: "message list \<Rightarrow> burst list" where
  "detectMessageBursts messages =
     (case burstLoop messages [] [] of
        (bursts, currentBurst) \<Rightarrow>
          if length currentBurst \<ge> MIN_BURST_SIZE then bursts @ [burstOf currentBurst]
          else bursts)"

text \<open>
  The specification: \<open>within30 a b\<close> says that \<open>b\<close> comes at most 30 minutes after
  its predecessor \<open>a\<close>, and \<open>runs\<close> cuts a list into its maximal runs of messages
  each within 30 minutes of the previous one.
\<close>

definition within30 :: "message \<Rightarrow> message \<Rightarrow> bool" where
  "within30 a b \<longleftrightarrow> timestamp b - timestamp a \<le> 30 * 60 * 1000"

fun runs :: "message list \<Rightarrow> message list list" where
  "runs [] = []"
| "runs (m # ms) =
     (case runs ms of
        [] \<Rightarrow> [[m]]
      | r # rs \<Rightarrow> if within30 m (hd r) then (m # r) # rs else [m] # r # rs)"

lemma timeDiff_within30:
  "((of_int (timestamp m - timestamp l) :: rat) / (1000 * 60) \<le> BURST_THRESHOLD) = within30 l m"
proof -
  have "((of_int (timestamp m - timestamp l) :: rat) / (1000 * 60) \<le> 30)
          = ((of_int (timestamp m - timestamp l) :: rat) \<le> of_int (30 * 60 * 1000))"
    by (simp add: divide_le_eq)
  also have "\<dots> = (timestamp m - timestamp l \<le> 30 * 60 * 1000)"
    by (simp only: of_int_le_iff)
  finally show ?thesis
    by (simp add: BURST_THRESHOLD_def within30_def)
qed

lemma runs_nonempty: "ms \<noteq> [] \<Longrightarrow> \<exists>r rs. runs ms = r # rs \<and> r \<noteq> [] \<and> hd r = hd ms"
  by (cases ms) (auto split: list.splits)

lemma runs_single: "successively within30 cur \<Longrightarrow> cur \<noteq> [] \<Longrightarrow> runs cur = [cur]"
proof (induction cur)
  case Nil
  then show ?case by simp
next
  case (Cons a cur)
  show ?case
  proof (cases cur)
    case Nil
    then show ?thesis by simp
  next
    case (Cons b rest)
    with Cons.prems Cons.IH have "runs cur = [cur]" "within30 a b"
      by (auto simp: successively_Cons)
    with Cons show ?thesis by simp
  qed
qed

lemma runs_append_break:
  "successively within30 cur \<Longrightarrow> cur \<noteq> [] \<Longrightarrow> ys \<noteq> [] \<Longrightarrow> \<not> within30 (last cur) (hd ys)
     \<Longrightarrow> runs (cur @ ys) = cur # runs ys"
proof (induction cur)
  case Nil
  then show ?case by simp
next
  case (Cons a cur)
  obtain r rs where r: "runs ys = r # rs" "r \<noteq> []" "hd r = hd ys"
    using runs_nonempty [OF Cons.prems(3)] by blast
  show ?case
  proof (cases cur)
    case Nil
    with Cons.prems r show ?thesis by simp
  next
    case (Cons b rest)
    with Cons.prems Cons.IH have ih: "runs (cur @ ys) = cur # runs ys" and ab: "within30 a b"
      by (auto simp: successively_Cons)
    with Cons show ?thesis by simp
  qed
qed

definition finish :: "burst list \<times> message list \<Rightarrow> burst list" where
  "finish p = (if length (snd p) \<ge> MIN_BURST_SIZE then fst p @ [burstOf (snd p)] else fst p)"

lemma successively_snoc:
  "successively P (xs @ [y]) \<longleftrightarrow> successively P xs \<and> (xs \<noteq> [] \<longrightarrow> P (last xs) y)"
  by (induction xs rule: induct_list012) (auto simp: successively_Cons)

lemma burstLoop_Cons:
  "cur \<noteq> [] \<Longrightarrow>
   burstLoop (m # ms) bursts cur =
     (if within30 (last cur) m then burstLoop ms bursts (cur @ [m])
      else burstLoop ms
             (if length cur \<ge> MIN_BURST_SIZE then bursts @ [burstOf cur] else bursts) [m])"
  unfolding burstLoop.simps Let_def timeDiff_within30 by simp

lemma burstLoop_runs:
  "cur \<noteq> [] \<Longrightarrow> successively within30 cur \<Longrightarrow>
   finish (burstLoop ms bursts cur)
     = bursts @ map burstOf (filter (\<lambda>r. MIN_BURST_SIZE \<le> length r) (runs (cur @ ms)))"
proof (induction ms arbitrary: bursts cur)
  case Nil
  then show ?case
    by (simp add: finish_def runs_single)
next
  case (Cons m ms)
  show ?case
  proof (cases "within30 (last cur) m")
    case True
    have "successively within30 (cur @ [m])"
      using Cons.prems True by (simp add: successively_snoc)
    then have "finish (burstLoop ms bursts (cur @ [m]))
        = bursts @ map burstOf (filter (\<lambda>r. MIN_BURST_SIZE \<le> length r) (runs ((cur @ [m]) @ ms)))"
      using Cons.IH [of "cur @ [m]" bursts] by simp
    then show ?thesis
      using Cons.prems True by (simp add: burstLoop_Cons del: burstLoop.simps)
  next
    case False
    have brk: "runs (cur @ m # ms) = cur # runs (m # ms)"
      using runs_append_break [of cur "m # ms"] Cons.prems False by simp
    have ih: "\<And>b. finish (burstLoop ms b [m])
        = b @ map burstOf (filter (\<lambda>r. MIN_BURST_SIZE \<le> length r) (runs ([m] @ ms)))"
      using Cons.IH [of "[m]"] by simp
    show ?thesis
      using Cons.prems False by (simp add: burstLoop_Cons ih brk del: burstLoop.simps runs.simps)
  qed
qed

lemma detect_runs:
  "detectMessageBursts ms = map burstOf (filter (\<lambda>r. MIN_BURST_SIZE \<le> length r) (runs ms))"
proof (cases ms)
  case Nil
  then show ?thesis by (simp add: detectMessageBursts_def MIN_BURST_SIZE_def)
next
  case (Cons m rest)
  have "detectMessageBursts ms = finish (burstLoop rest [] [m])"
    using Cons by (simp add: detectMessageBursts_def finish_def split: prod.splits)
  also have "\<dots> = map burstOf (filter (\<lambda>r. MIN_BURST_SIZE \<le> length r) (runs ([m] @ rest)))"
    using burstLoop_runs [of "[m]" rest "[]"] by simp
  finally show ?thesis using Cons by simp
qed

lemma concat_runs: "concat (runs ms) = ms"
  by (induction ms) (auto split: list.splits)

lemma runs_chained: "r \<in> set (runs ms) \<Longrightarrow> r \<noteq> [] \<and> successively within30 r"
proof (induction ms arbitrary: r)
  case Nil
  then show ?case by simp
next
  case (Cons m ms)
  show ?case
  proof (cases "runs ms")
    case Nil
    with Cons.prems show ?thesis by simp
  next
    case (Cons r0 rs)
    have r0: "r0 \<noteq> [] \<and> successively within30 r0"
      using Cons.IH [of r0] Cons by simp
    have rest: "\<And>x. x \<in> set rs \<Longrightarrow> x \<noteq> [] \<and> successively within30 x"
      using Cons.IH Cons by simp
    show ?thesis
    proof (cases "within30 m (hd r0)")
      case True
      with Cons.prems Cons have "r = m # r0 \<or> r \<in> set rs" by auto
      moreover have "successively within30 (m # r0)"
        using r0 True by (cases r0) (auto simp: successively_Cons)
      ultimately show ?thesis using rest by auto
    next
      case False
      with Cons.prems Cons have "r = [m] \<or> r = r0 \<or> r \<in> set rs" by auto
      then show ?thesis using r0 rest by auto
    qed
  qed
qed

lemma runs_separated: "successively (\<lambda>r s. \<not> within30 (last r) (hd s)) (runs ms)"
proof (induction ms)
  case Nil
  then show ?case by simp
next
  case (Cons m ms)
  show ?case
  proof (cases "runs ms")
    case Nil
    then show ?thesis by simp
  next
    case (Cons r0 rs)
    have r0: "r0 \<noteq> []"
      using runs_chained [of r0 ms] Cons by simp
    show ?thesis
      using Cons.IH Cons r0 by (cases rs) (auto simp: successively_Cons)
  qed
qed


text \<open>A message sent at local time \<open>t\<close>, for the examples.\<close>

definition msgAt :: "int \<Rightarrow> message" where
  "msgAt t = messageOf t (JStr (str ''bob'')) (str ''hi'') Text"

text \<open>
  Claim C5.  For every message list, \<open>detectMessageBursts\<close> returns, in order, one burst
  for each maximal run of at least 5 messages in which every message is within 30 minutes of
  the previous one: \<open>runs\<close> cuts the list into consecutive non-empty runs whose
  neighbours are within 30 minutes, two successive runs are more than 30 minutes apart, and
  each burst has \<open>messageCount\<close> equal to the length of its run and \<open>duration\<close>
  equal to last minus first timestamp in minutes.  In particular a list in which every
  message is within 30 minutes of the previous one gives one burst when it has at least 5
  messages and none when it has fewer.
\<close>

theorem detectMessageBursts_maximal_runs:
  "detectMessageBursts ms
     = map (\<lambda>r. \<lparr> bstart = date (hd r), bend = date (last r), messageCount = length r,
                  duration = of_int (timestamp (last r) - timestamp (hd r)) / 60000 \<rparr>)
           (filter (\<lambda>r. 5 \<le> length r) (runs ms))
   \<and> concat (runs ms) = ms
   \<and> (\<forall>r \<in> set (runs ms). r \<noteq> [] \<and> successively within30 r)
   \<and> successively (\<lambda>r s. \<not> within30 (last r) (hd s)) (runs ms)
   \<and> (ms \<noteq> [] \<and> successively within30 ms \<longrightarrow>
        detectMessageBursts ms
          = (if 5 \<le> length ms
             then [\<lparr> bstart = date (hd ms), bend = date (last ms), messageCount = length ms,
                     duration = of_int (timestamp (last ms) - timestamp (hd ms)) / 60000 \<rparr>]
             else []))"
proof -
  have b: "burstOf = (\<lambda>r. \<lparr> bstart = date (hd r), bend = date (last r), messageCount = length r,
                  duration = of_int (timestamp (last r) - timestamp (hd r)) / 60000 \<rparr>)"
    by (rule ext) (simp add: burstOf_def)
  have d: "detectMessageBursts ms = map burstOf (filter (\<lambda>r. 5 \<le> length r) (runs ms))"
    using detect_runs [of ms] by (simp add: MIN_BURST_SIZE_def)
  have one: "ms \<noteq> [] \<and> successively within30 ms \<longrightarrow>
        detectMessageBursts ms = (if 5 \<le> length ms then [burstOf ms] else [])"
    using d by (simp add: runs_single)
  show ?thesis
    using d one concat_runs [of ms] runs_chained [of _ ms] runs_separated [of ms]
    unfolding b by blast
qed

theorem detectMessageBursts_maximal_runs_witness:
  "successively within30 (map msgAt [0, 600000, 1200000, 1800000, 2400000])
   \<and> detectMessageBursts (map msgAt [0, 600000, 1200000, 1800000, 2400000])
       = [\<lparr> bstart = 0, bend = 2400000, messageCount = 5, duration = 40 \<rparr>]
   \<and> successively within30 (map msgAt [0, 600000, 1200000, 1800000])
   \<and> detectMessageBursts (map msgAt [0, 600000, 1200000, 1800000]) = []
   \<and> runs (map msgAt [0, 600000, 1200000, 1800000, 2400000])
       = [map msgAt [0, 600000, 1200000, 1800000, 2400000]]"
proof -
  have s5: "successively within30 (map msgAt [0, 600000, 1200000, 1800000, 2400000])"
    by (simp add: within30_def msgAt_def messageOf_def)
  have s4: "successively within30 (map msgAt [0, 600000, 1200000, 1800000])"
    by (simp add: within30_def msgAt_def messageOf_def)
  have d5: "detectMessageBursts (map msgAt [0, 600000, 1200000, 1800000, 2400000])
       = [\<lparr> bstart = 0, bend = 2400000, messageCount = 5, duration = 40 \<rparr>]"
    using s5 detectMessageBursts_maximal_runs [of "map msgAt [0, 600000, 1200000, 1800000, 2400000]"]
    by (simp add: msgAt_def messageOf_def)
  have d4: "detectMessageBursts (map msgAt [0, 600000, 1200000, 1800000]) = []"
    using s4 detectMessageBursts_maximal_runs [of "map msgAt [0, 600000, 1200000, 1800000]"]
    by simp
  have r5: "runs (map msgAt [0, 600000, 1200000, 1800000, 2400000])
       = [map msgAt [0, 600000, 1200000, 1800000, 2400000]]"
    using s5 by (simp add: runs_single)
  show ?thesis
    using s5 s4 d5 d4 r5 by blast
qed

lemma detect_example_two_runs:
  "detectMessageBursts (map msgAt [0, 1, 2, 3, 4, 1800005, 1800006, 3600006, 3600007, 3600008, 3600009, 5400009, 9000000])
     = [\<lparr> bstart = 0, bend = 4, messageCount = 5, duration = 4 / 60000 \<rparr>,
        \<lparr> bstart = 1800005, bend = 5400009, messageCount = 7, duration = 3600004 / 60000 \<rparr>]"
  by (simp add: detectMessageBursts_def burstOf_def BURST_THRESHOLD_def MIN_BURST_SIZE_def msgAt_def messageOf_def Let_def)

section \<open>Processor: identity fallback and balance score\<close>

text \<open>
  Senders are compared with \<open>===\<close>.  Strings, numbers, booleans and \<open>null\<close> are compared
  by value.  An object or an array is equal only to itself; the parser gives every message
  a \<open>From\<close> of its own, so two such senders are equal only when they are the \<open>From\<close> of one
  and the same message, which the argument \<open>sameObject\<close> says.
\<close>

definition primitive :: "json \<Rightarrow> bool" where
  "primitive v = (case v of JArr _ \<Rightarrow> False | JObj _ \<Rightarrow> False | _ \<Rightarrow> True)"

definition strictEquals :: "json \<Rightarrow> json \<Rightarrow> bool \<Rightarrow> bool" where
  "strictEquals a b sameObject = (if primitive a \<or> primitive b then a = b else sameObject)"

text \<open>
  \<open>Processor.getUserIdentity\<close> (part_000, lines 13-29).  The argument \<open>userIdentity\<close> is
  \<open>window.appData.userIdentity\<close>, a string or \<open>null\<close>: \<open>None\<close> is \<open>null\<close> or \<open>undefined\<close>,
  and the empty string is falsy as well.  The result is the identity together with whether
  it is the \<open>From\<close> of the first message: the fallback returns that value itself, not a
  copy.
\<close>

definition getUserIdentity :: "jsstring option \<Rightarrow> message list \<Rightarrow> json \<times> bool" where
  "getUserIdentity userIdentity messages =
     (case userIdentity of
        None \<Rightarrow> (JStr (str ''you''), False)
      | Some u \<Rightarrow>
          if u = [] then (JStr (str ''you''), False)
          else if JStr u \<in> set (map sender messages) then (JStr u, False)
          else (case messages of [] \<Rightarrow> (JStr (str ''you''), False) | m # _ \<Rightarrow> (sender m, True)))"

text \<open>
  \<open>Processor.calculateBalanceScore\<close> (part_000, lines 791-824).  The fields \<open>score\<close>,
  \<open>yourPercentage\<close> and \<open>theirPercentage\<close> are the numbers the source computes, as exact
  rationals; the source returns them rendered with one decimal by \<open>toFixed(1)\<close>.  The loop
  visits the messages with their positions: the message at position 0 is the one whose
  \<open>From\<close> the fallback of \<open>getUserIdentity\<close> returns.
\<close>

record balance =
  score :: rat
  yourPercentage :: rat
  theirPercentage :: rat
  youCount :: nat
  themCount :: nat

definition countSides :: "json \<times> bool \<Rightarrow> message list \<Rightarrow> nat \<times> nat" where
  "countSides userIdentity messages =
     fold (\<lambda>(i, msg) (you, them).
             if strictEquals (sender msg) (fst userIdentity) (snd userIdentity \<and> i = 0)
             then (you + 1, them) else (you, them + 1))
          (enumerate 0 messages) (0, 0)"

definition calculateBalanceScore :: "jsstring option \<Rightarrow> message list \<Rightarrow> balance" where
  "calculateBalanceScore uid messages =
     (if length messages = 0
      then \<lparr> score = 0, yourPercentage = 0, theirPercentage = 0, youCount = 0, themCount = 0 \<rparr>
      else
        let userIdentity = getUserIdentity uid messages;
            (you, them) = countSides userIdentity messages;
            total = you + them
        in if total = 0
           then \<lparr> score = 0, yourPercentage = 0, theirPercentage = 0, youCount = 0, themCount = 0 \<rparr>
           else
             let yourP = (of_nat you / of_nat total) * 100;
                 theirP = (of_nat them / of_nat total) * 100
             in \<lparr> score = 100 - (\<bar>50 - yourP\<bar> * 2), yourPercentage = yourP,
                  theirPercentage = theirP, youCount = you, themCount = them \<rparr>)"

lemma strictEquals_primitive: "primitive a \<Longrightarrow> strictEquals a b sameObject = (a = b)"
  by (simp add: strictEquals_def)

lemma fold_countSides:
  assumes "\<forall>m \<in> set ms. primitive (sender m)"
  shows "fold (\<lambda>(i, msg) (you, them).
                 if strictEquals (sender msg) v (f \<and> i = 0) then (you + 1, them) else (you, them + 1))
              (enumerate n ms) (a, b)
           = (a + length (filter (\<lambda>m. sender m = v) ms), b + length (filter (\<lambda>m. sender m \<noteq> v) ms))"
  using assms by (induction ms arbitrary: n a b) (auto simp: strictEquals_primitive)

lemma countSides_eq:
  assumes "\<forall>m \<in> set ms. primitive (sender m)"
  shows "countSides u ms
           = (length (filter (\<lambda>m. sender m = fst u) ms), length (filter (\<lambda>m. sender m \<noteq> fst u) ms))"
  using fold_countSides [OF assms, of "fst u" "snd u" 0 0 0] by (simp add: countSides_def)

lemma score_formula:
  assumes "ms \<noteq> []" and "\<forall>m \<in> set ms. primitive (sender m)"
  shows "score (calculateBalanceScore uid ms)
           = 100 - 2 * \<bar>50 - 100 * of_nat (length (filter (\<lambda>m. sender m = fst (getUserIdentity uid ms)) ms))
                                  / of_nat (length ms)\<bar>"
proof -
  have "length (filter (\<lambda>m. sender m = fst (getUserIdentity uid ms)) ms)
          + length (filter (\<lambda>m. sender m \<noteq> fst (getUserIdentity uid ms)) ms) = length ms"
    using sum_length_filter_compl [of "\<lambda>m. sender m = fst (getUserIdentity uid ms)" ms] by simp
  then show ?thesis
    using assms(1) by (simp add: calculateBalanceScore_def countSides_eq [OF assms(2)] Let_def ac_simps)
qed

lemma identity_resolved:
  assumes "ms \<noteq> []" and "uid \<noteq> None" and "uid \<noteq> Some []"
  shows "fst (getUserIdentity uid ms) \<in> set (map sender ms)"
proof -
  obtain u where u: "uid = Some u" "u \<noteq> []"
    using assms by (cases uid) auto
  obtain m rest where ms: "ms = m # rest"
    using assms by (cases ms) auto
  show ?thesis
  proof (cases "JStr u \<in> set (map sender ms)")
    case True
    then show ?thesis using u by (simp add: getUserIdentity_def)
  next
    case False
    then show ?thesis using u ms by (simp add: getUserIdentity_def)
  qed
qed

lemma one_sender_score:
  assumes "ms \<noteq> []" and "\<forall>m \<in> set ms. primitive (sender m)" and "\<forall>m \<in> set ms. sender m = s"
  shows "score (calculateBalanceScore uid ms) = 0"
proof (cases "fst (getUserIdentity uid ms) = s")
  case True
  have "filter (\<lambda>m. sender m = s) ms = ms"
    using assms(3) by (simp add: filter_id_conv)
  then show ?thesis
    using assms(1) True by (simp add: score_formula [OF assms(1,2)])
next
  case False
  have "filter (\<lambda>m. sender m = fst (getUserIdentity uid ms)) ms = []"
    using assms(3) False by (auto simp: filter_empty_conv)
  then show ?thesis
    using assms(1) by (simp add: score_formula [OF assms(1,2)])
qed

lemma half_count:
  assumes "\<forall>m \<in> set ms. sender m = a \<or> sender m = b" and "a \<noteq> b"
    and "length (filter (\<lambda>m. sender m = a) ms) = length (filter (\<lambda>m. sender m = b) ms)"
  shows "length ms = 2 * length (filter (\<lambda>m. sender m = a) ms)"
proof -
  have "filter (\<lambda>m. sender m \<noteq> a) ms = filter (\<lambda>m. sender m = b) ms"
    using assms(1,2) by (intro filter_cong) auto
  then show ?thesis
    using sum_length_filter_compl [of "\<lambda>m. sender m = a" ms] assms(3) by simp
qed

lemma even_split_score:
  assumes "ms \<noteq> []" and "\<forall>m \<in> set ms. primitive (sender m)"
    and "\<forall>m \<in> set ms. sender m = a \<or> sender m = b" and "a \<noteq> b"
    and "length (filter (\<lambda>m. sender m = a) ms) = length (filter (\<lambda>m. sender m = b) ms)"
    and "fst (getUserIdentity uid ms) = a \<or> fst (getUserIdentity uid ms) = b"
  shows "score (calculateBalanceScore uid ms) = 100"
proof -
  have la: "length ms = 2 * length (filter (\<lambda>m. sender m = a) ms)"
    using half_count [OF assms(3,4,5)] .
  have lb: "length ms = 2 * length (filter (\<lambda>m. sender m = b) ms)"
    using la assms(5) by simp
  have pos: "length ms > 0"
    using assms(1) by simp
  have "length ms = 2 * length (filter (\<lambda>m. sender m = fst (getUserIdentity uid ms)) ms)"
    using assms(6) la lb by auto
  then have "(100 * of_nat (length (filter (\<lambda>m. sender m = fst (getUserIdentity uid ms)) ms)) :: rat)
               / of_nat (length ms) = 50"
    using pos by (simp add: field_simps)
  then show ?thesis
    using assms(1) by (simp add: score_formula [OF assms(1,2)])
qed

text \<open>A message from the sender \<open>s\<close>, and from the sender named \<open>s\<close>, for the examples.\<close>

definition msgOf :: "json \<Rightarrow> message" where
  "msgOf s = messageOf 0 s (str ''hi'') Text"

definition msgFrom :: "string \<Rightarrow> message" where
  "msgFrom s = msgOf (JStr (str s))"

text \<open>
  Claim C4.  The senders of normalized messages are strings, and the pipeline runs only
  with an identity selected (part_003, lines 317-320).  For every non-empty list of messages
  whose senders are strings, or other values that \<open>===\<close> compares by value, the balance
  score is \<open>100 - 2 * |50 - p|\<close>, where \<open>p\<close> is the percentage of messages whose sender is
  the identity resolved by \<open>getUserIdentity\<close>.  A conversation in which every message has
  the same sender scores 0.  A conversation split exactly 50/50 between two senders scores
  100 when an identity is selected (and also without one when a sender is named \<open>you\<close>).
\<close>

theorem balance_score:
  assumes "ms \<noteq> []" and "\<forall>m \<in> set ms. primitive (sender m)"
  shows "score (calculateBalanceScore uid ms)
           = 100 - 2 * \<bar>50 - 100 * of_nat (length (filter (\<lambda>m. sender m = fst (getUserIdentity uid ms)) ms))
                                  / of_nat (length ms)\<bar>
     \<and> ((\<forall>m \<in> set ms. sender m = s) \<longrightarrow> score (calculateBalanceScore uid ms) = 0)
     \<and> ((\<forall>m \<in> set ms. sender m = a \<or> sender m = b) \<and> a \<noteq> b
          \<and> length (filter (\<lambda>m. sender m = a) ms) = length (filter (\<lambda>m. sender m = b) ms)
          \<and> ((uid \<noteq> None \<and> uid \<noteq> Some []) \<or> a = JStr (str ''you'') \<or> b = JStr (str ''you''))
          \<longrightarrow> score (calculateBalanceScore uid ms) = 100)"
proof (intro conjI impI)
  show "score (calculateBalanceScore uid ms)
           = 100 - 2 * \<bar>50 - 100 * of_nat (length (filter (\<lambda>m. sender m = fst (getUserIdentity uid ms)) ms))
                                  / of_nat (length ms)\<bar>"
    using score_formula [OF assms] .
next
  assume "\<forall>m \<in> set ms. sender m = s"
  then show "score (calculateBalanceScore uid ms) = 0"
    using one_sender_score [OF assms] by blast
next
  assume h: "(\<forall>m \<in> set ms. sender m = a \<or> sender m = b) \<and> a \<noteq> b
          \<and> length (filter (\<lambda>m. sender m = a) ms) = length (filter (\<lambda>m. sender m = b) ms)
          \<and> ((uid \<noteq> None \<and> uid \<noteq> Some []) \<or> a = JStr (str ''you'') \<or> b = JStr (str ''you''))"
  have "fst (getUserIdentity uid ms) = a \<or> fst (getUserIdentity uid ms) = b"
  proof (cases "uid \<noteq> None \<and> uid \<noteq> Some []")
    case True
    then have "fst (getUserIdentity uid ms) \<in> set (map sender ms)"
      using identity_resolved [OF assms(1)] by blast
    then show ?thesis using h by auto
  next
    case False
    then have "fst (getUserIdentity uid ms) = JStr (str ''you'')"
      by (auto simp: getUserIdentity_def split: option.splits)
    then show ?thesis using h False by auto
  qed
  then show "score (calculateBalanceScore uid ms) = 100"
    using even_split_score [OF assms, of a b uid] h by blast
qed

theorem balance_score_witness:
  "[msgFrom ''alice'', msgFrom ''bob'', msgFrom ''bob'', msgFrom ''alice''] \<noteq> []
   \<and> score (calculateBalanceScore (Some (str ''carol''))
              [msgFrom ''alice'', msgFrom ''bob'', msgFrom ''bob'', msgFrom ''alice'']) = 100
   \<and> score (calculateBalanceScore (Some (str ''carol'')) [msgFrom ''bob'', msgFrom ''bob'']) = 0"
proof -
  let ?ms = "[msgFrom ''alice'', msgFrom ''bob'', msgFrom ''bob'', msgFrom ''alice'']"
  let ?a = "JStr (str ''alice'')"
  let ?b = "JStr (str ''bob'')"
  let ?uid = "Some (str ''carol'')"
  have ne: "?ms \<noteq> []"
    by simp
  have prim: "\<forall>m \<in> set ?ms. primitive (sender m)"
    by (simp add: msgFrom_def msgOf_def messageOf_def primitive_def)
  have prem: "(\<forall>m \<in> set ?ms. sender m = ?a \<or> sender m = ?b) \<and> ?a \<noteq> ?b
          \<and> length (filter (\<lambda>m. sender m = ?a) ?ms) = length (filter (\<lambda>m. sender m = ?b) ?ms)
          \<and> ((?uid \<noteq> None \<and> ?uid \<noteq> Some []) \<or> ?a = JStr (str ''you'') \<or> ?b = JStr (str ''you''))"
    by (simp add: msgFrom_def msgOf_def messageOf_def str_def)
  have even: "score (calculateBalanceScore ?uid ?ms) = 100"
    using balance_score [OF ne prim, of ?uid ?a ?a ?b] prem by blast
  have ne2: "[msgFrom ''bob'', msgFrom ''bob''] \<noteq> []"
    by simp
  have prim2: "\<forall>m \<in> set [msgFrom ''bob'', msgFrom ''bob'']. primitive (sender m)"
    by (simp add: msgFrom_def msgOf_def messageOf_def primitive_def)
  have prem2: "\<forall>m \<in> set [msgFrom ''bob'', msgFrom ''bob'']. sender m = ?b"
    by (simp add: msgFrom_def msgOf_def messageOf_def)
  have one: "score (calculateBalanceScore ?uid [msgFrom ''bob'', msgFrom ''bob'']) = 0"
    using balance_score [OF ne2 prim2, of ?uid ?b ?a ?b] prem2 by blast
  show ?thesis
    using ne even one by blast
qed

text \<open>
  Two cases outside the claim.  Without a selected identity, a state in which the pipeline
  does not run, the resolved identity is the default \<open>you\<close>, and a conversation split
  between two senders neither of whom has that name scores 0.  Two messages whose senders
  are objects have two different senders, whatever the objects hold: the first is the
  fallback identity and the second is not, so the score is 100.
\<close>

lemma balance_without_identity:
  "score (calculateBalanceScore None [msgFrom ''alice'', msgFrom ''bob'']) = 0"
  by (simp add: calculateBalanceScore_def countSides_def getUserIdentity_def msgFrom_def msgOf_def
      messageOf_def str_def Let_def strictEquals_def primitive_def)

lemma balance_object_senders:
  "score (calculateBalanceScore (Some (str ''carol''))
            [msgOf (JObj [(str ''a'', JNum 1)]), msgOf (JObj [(str ''a'', JNum 1)])]) = 100"
  by (simp add: calculateBalanceScore_def countSides_def getUserIdentity_def msgOf_def
      messageOf_def str_def Let_def strictEquals_def primitive_def)

section \<open>StatsIndividual: milestones and content breakdown\<close>

text \<open>
  \<open>d.setFullYear(y)\<close> keeps month, day and time of day; a 29 February carries over to
  1 March when \<open>y\<close> is not a leap year.
\<close>

definition setFullYear :: "int \<Rightarrow> int \<Rightarrow> int" where
  "setFullYear t y =
     (days_from_civil y (getMonth t + 1) 1 + getDate t - 1) * msPerDay + timeInDay t"

text \<open>
  A milestone: its \<open>type\<close> with the number that its \<open>message\<close> text shows, and its date.
\<close>

datatype milestoneKind = FirstMessage | CountReached nat | Anniversary int

record milestone =
  kind :: milestoneKind
  mdate :: int

definition countMilestones :: "nat list" where
  "countMilestones = [100, 500, 1000, 5000, 10000]"

text \<open>
  \<open>StatsIndividual.calculateMilestones\<close> (stats-individual.js, lines 164-213), applied to
  \<open>processedData.messages\<close>.  Line 193 reads \<open>messages[0].date\<close> without a guard: on the
  empty list \<open>messages[0]\<close> is \<open>undefined\<close> and the read throws a \<open>TypeError\<close>.
\<close>

definition calculateMilestones :: "message list \<Rightarrow> error + milestone list" where
  "calculateMilestones messages =
     (let milestones0 =
            (if length messages > 0
             then [\<lparr> kind = FirstMessage, mdate = date (messages ! 0) \<rparr>] else []);
          milestones1 = milestones0 @
            concat (map (\<lambda>milestone.
                           if length messages \<ge> milestone
                           then [\<lparr> kind = CountReached milestone,
                                   mdate = date (messages ! (milestone - 1)) \<rparr>]
                           else [])
                        countMilestones)
      in case messages of
           [] \<Rightarrow> Inl TypeError
         | first # _ \<Rightarrow>
             let firstDate = date first;
                 lastDate = date (last messages);
                 yearsDiff = (lastDate - firstDate) div (1000 * 60 * 60 * 24 * 365);
                 milestones2 = milestones1 @
                   map (\<lambda>yr. \<lparr> kind = Anniversary yr,
                               mdate = setFullYear firstDate (getFullYear firstDate + yr) \<rparr>)
                       [1..yearsDiff]
             in Inr (sortBy (\<lambda>a b. mdate a - mdate b) milestones2))"

text \<open>\<open>Stats.countMessageTypes\<close> (part_005, lines 40-53).\<close>

record typeCounts =
  text_n :: nat
  link_n :: nat
  media_n :: nat
  sticker_n :: nat
  empty_n :: nat

definition countType :: "message \<Rightarrow> typeCounts \<Rightarrow> typeCounts" where
  "countType msg types =
     (case mtype msg of
        Text \<Rightarrow> types\<lparr> text_n := text_n types + 1 \<rparr>
      | Link \<Rightarrow> types\<lparr> link_n := link_n types + 1 \<rparr>
      | Media \<Rightarrow> types\<lparr> media_n := media_n types + 1 \<rparr>
      | Sticker \<Rightarrow> types\<lparr> sticker_n := sticker_n types + 1 \<rparr>
      | Empty \<Rightarrow> types\<lparr> empty_n := empty_n types + 1 \<rparr>)"

definition countMessageTypes :: "message list \<Rightarrow> typeCounts" where
  "countMessageTypes messages =
     fold countType messages
       \<lparr> text_n = 0, link_n = 0, media_n = 0, sticker_n = 0, empty_n = 0 \<rparr>"

text \<open>
  \<open>StatsIndividual.getDetailedContentBreakdown\<close> (stats-individual.js, lines 48-62).  A
  percentage is the number handed to \<open>toFixed(1)\<close>; \<open>None\<close> stands for the result of
  a division by zero, which is not a finite number (\<open>0 / 0\<close> is NaN).
\<close>

definition percentOf :: "nat \<Rightarrow> nat \<Rightarrow> rat option" where
  "percentOf n tot = (if tot = 0 then None else Some ((of_nat n / of_nat tot) * 100))"

definition getDetailedContentBreakdown :: "message list \<Rightarrow> typeCounts \<times> rat option list" where
  "getDetailedContentBreakdown messages =
     (let breakdown = countMessageTypes messages;
          tot = length messages
      in (breakdown,
          [percentOf (text_n breakdown) tot, percentOf (link_n breakdown) tot,
           percentOf (media_n breakdown) tot, percentOf (sticker_n breakdown) tot,
           percentOf (empty_n breakdown) tot]))"


text \<open>The content breakdown of the empty list returns, with every percentage NaN.\<close>

lemma getDetailedContentBreakdown_empty:
  "snd (getDetailedContentBreakdown []) = [None, None, None, None, None]"
  by (simp add: getDetailedContentBreakdown_def countMessageTypes_def percentOf_def)

text \<open>The balance score and the bursts guard the empty list and return zeros.\<close>

lemma neutral_on_empty:
  "calculateBalanceScore uid []
     = \<lparr> score = 0, yourPercentage = 0, theirPercentage = 0, youCount = 0, themCount = 0 \<rparr>"
  "detectMessageBursts [] = []"
  by (simp_all add: calculateBalanceScore_def detectMessageBursts_def MIN_BURST_SIZE_def)

lemma milestones_example:
  "calculateMilestones [msgAt (Date_ymd 2020 1 29), msgAt (Date_ymd 2022 2 1)]
     = Inr [\<lparr> kind = FirstMessage, mdate = Date_ymd 2020 1 29 \<rparr>,
            \<lparr> kind = Anniversary 1, mdate = Date_ymd 2021 2 1 \<rparr>,
            \<lparr> kind = Anniversary 2, mdate = Date_ymd 2022 2 1 \<rparr>]"
  by code_simp

section \<open>Week keys use the calendar year\<close>

lemma in_update:
  "p \<in> set (AList.update k v al) \<Longrightarrow> p = (k, v) \<or> p \<in> set al"
  by (induction al) (auto split: if_splits)

lemma map_of_in_set: "map_of al k = Some v \<Longrightarrow> (k, v) \<in> set al"
  by (rule map_of_SomeD)

text \<open>
  Every message of a cluster has the cluster's key, and the cluster's \<open>year\<close> and
  \<open>week\<close> are those of its first message.
\<close>

definition keyed :: "jsstring \<times> weekCluster \<Rightarrow> bool" where
  "keyed p \<longleftrightarrow>
     wmessages (snd p) \<noteq> [] \<and>
     (\<forall>m \<in> set (wmessages (snd p)). weekKeyOf m = fst p) \<and>
     wyear (snd p) = year (hd (wmessages (snd p))) \<and>
     wweek (snd p) = week (hd (wmessages (snd p)))"

lemma addMessage_keyed:
  assumes "\<forall>p \<in> set ws. keyed p"
  shows "\<forall>p \<in> set (addMessage msg ws). keyed p"
proof (cases "map_of ws (weekKeyOf msg)")
  case None
  let ?w0 = "\<lparr> wyear = year msg, wweek = week msg, wmessages = [], wcount = 0, dateRange = None \<rparr>"
  let ?w1 = "?w0\<lparr> wmessages := wmessages ?w0 @ [msg], wcount := wcount ?w0 + 1 \<rparr>"
  let ?ws1 = "AList.update (weekKeyOf msg) ?w0 ws"
  have look: "map_of ?ws1 (weekKeyOf msg) = Some ?w0"
    by (simp add: update_conv')
  have "addMessage msg ws = AList.update (weekKeyOf msg) ?w1 ?ws1"
    using None look by (simp add: addMessage_def Let_def)
  also have "\<dots> = AList.update (weekKeyOf msg) ?w1 ws"
    by (rule update_last)
  finally have eq: "addMessage msg ws = AList.update (weekKeyOf msg) ?w1 ws" .
  have "keyed (weekKeyOf msg, ?w1)"
    by (simp add: keyed_def)
  then show ?thesis
    using assms in_update [of _ "weekKeyOf msg" ?w1 ws] unfolding eq by blast
next
  case (Some w)
  let ?w1 = "w\<lparr> wmessages := wmessages w @ [msg], wcount := wcount w + 1 \<rparr>"
  have eq: "addMessage msg ws = AList.update (weekKeyOf msg) ?w1 ws"
    using Some by (simp add: addMessage_def Let_def)
  have "keyed (weekKeyOf msg, w)"
    using assms map_of_in_set [OF Some] by blast
  then have "keyed (weekKeyOf msg, ?w1)"
    by (cases "wmessages w") (auto simp: keyed_def)
  then show ?thesis
    using assms in_update [of _ "weekKeyOf msg" ?w1 ws] unfolding eq by blast
qed

lemma fold_addMessage_keyed:
  "\<forall>p \<in> set ws. keyed p \<Longrightarrow> \<forall>p \<in> set (fold addMessage msgs ws). keyed p"
proof (induction msgs arbitrary: ws)
  case Nil
  then show ?case by simp
next
  case (Cons m msgs)
  have "\<forall>p \<in> set (addMessage m ws). keyed p"
    using addMessage_keyed [OF Cons.prems] .
  then show ?case
    using Cons.IH by simp
qed

lemma clusterByWeeks_keyed: "\<forall>p \<in> set (clusterByWeeks msgs). keyed p"
proof -
  have "\<forall>p \<in> set (fold addMessage msgs []). keyed p"
    by (rule fold_addMessage_keyed) simp
  then show ?thesis
    by (auto simp: clusterByWeeks_def keyed_def)
qed

lemma clusterByWeeks_dateRange:
  "\<forall>p \<in> set (clusterByWeeks msgs). dateRange (snd p) = Some (getWeekDateRange (wyear (snd p)) (wweek (snd p)))"
  by (auto simp: clusterByWeeks_def)

text \<open>A message sent on Monday 30 December 2024 at noon.\<close>

definition decemberMessage :: message where
  "decemberMessage = messageOf (Date_ymd 2024 11 30 + 12 * 3600000) (JStr (str ''bob'')) (str ''hi'') Text"

lemma december_fields:
  "year decemberMessage = 2024" "month decemberMessage = 11" "day decemberMessage = 30"
  "week decemberMessage = 1" "timestamp decemberMessage = 1735560000000"
  "getFullYear (timestamp decemberMessage + 3 * msPerDay) = 2025"
  by (simp_all add: decemberMessage_def messageOf_def) code_simp+

lemma december_range:
  "getWeekDateRange 2024 1 = (Date_ymd 2024 0 1, Date_ymd 2024 0 7)"
  "Date_ymd 2024 0 1 = 1704067200000" "Date_ymd 2024 0 7 = 1704585600000"
  by code_simp+

lemma december_key: "weekKeyOf decemberMessage = str ''2024-W01''"
  unfolding weekKeyOf_def december_fields by code_simp

lemma december_cluster:
  "clusterByWeeks [decemberMessage]
     = [(str ''2024-W01'',
         \<lparr> wyear = 2024, wweek = 1, wmessages = [decemberMessage], wcount = 1,
           dateRange = Some (Date_ymd 2024 0 1, Date_ymd 2024 0 7) \<rparr>)]"
  by (simp add: clusterByWeeks_def addMessage_def december_key december_fields december_range)


text \<open>
  Claim C10.  A week cluster is keyed by the calendar year and the ISO week number of its
  messages, and its \<open>dateRange\<close> is \<open>getWeekDateRange\<close> of that calendar year and week.
  The message of Monday 30 December 2024, noon, has calendar year 2024 and ISO week 1 (the
  Thursday of its week lies in 2025), so its cluster has the key \<open>2024-W01\<close> and the date
  range 1 January 2024 to 7 January 2024, which ends almost a year before the message's
  timestamp.
\<close>

theorem week_clusters_keyed_by_calendar_year:
  "(\<forall>p \<in> set (clusterByWeeks msgs). \<forall>m \<in> set (wmessages (snd p)).
       fst p = String_of (year m) @ str ''-W'' @ padStart2 (String_of (week m)))
   \<and> (\<forall>p \<in> set (clusterByWeeks msgs).
         dateRange (snd p) = Some (getWeekDateRange (year (hd (wmessages (snd p))))
                                                    (week (hd (wmessages (snd p))))))
   \<and> year decemberMessage = getFullYear (timestamp decemberMessage)
   \<and> week decemberMessage = getISOWeek (timestamp decemberMessage)
   \<and> year decemberMessage = 2024 \<and> week decemberMessage = 1
   \<and> getFullYear (timestamp decemberMessage + 3 * msPerDay) = 2025
   \<and> clusterByWeeks [decemberMessage]
        = [(str ''2024-W01'',
            \<lparr> wyear = 2024, wweek = 1, wmessages = [decemberMessage], wcount = 1,
              dateRange = Some (getWeekDateRange 2024 1) \<rparr>)]
   \<and> getWeekDateRange 2024 1 = (Date_ymd 2024 0 1, Date_ymd 2024 0 7)
   \<and> snd (getWeekDateRange 2024 1) + 358 * msPerDay < timestamp decemberMessage"
proof -
  have k: "\<forall>p \<in> set (clusterByWeeks msgs). \<forall>m \<in> set (wmessages (snd p)).
       fst p = String_of (year m) @ str ''-W'' @ padStart2 (String_of (week m))"
    using clusterByWeeks_keyed [of msgs] by (auto simp: keyed_def weekKeyOf_def)
  have r: "\<forall>p \<in> set (clusterByWeeks msgs).
         dateRange (snd p) = Some (getWeekDateRange (year (hd (wmessages (snd p))))
                                                    (week (hd (wmessages (snd p)))))"
    using clusterByWeeks_keyed [of msgs] clusterByWeeks_dateRange [of msgs]
    by (auto simp: keyed_def)
  have f: "year decemberMessage = getFullYear (timestamp decemberMessage)"
    "week decemberMessage = getISOWeek (timestamp decemberMessage)"
    by (simp_all add: decemberMessage_def messageOf_def)
  have late: "snd (getWeekDateRange 2024 1) + 358 * msPerDay < timestamp decemberMessage"
    by (simp add: december_range december_fields msPerDay_def)
  show ?thesis
    using k r f late december_fields december_cluster december_range(1) by simp
qed

theorem week_clusters_keyed_by_calendar_year_witness:
  "(str ''2024-W01'',
      \<lparr> wyear = 2024, wweek = 1, wmessages = [decemberMessage], wcount = 1,
        dateRange = Some (getWeekDateRange 2024 1) \<rparr>) \<in> set (clusterByWeeks [decemberMessage])
   \<and> str ''2024-W01''
        = String_of (year decemberMessage) @ str ''-W'' @ padStart2 (String_of (week decemberMessage))"
proof -
  let ?c = "\<lparr> wyear = 2024, wweek = 1, wmessages = [decemberMessage], wcount = 1,
              dateRange = Some (getWeekDateRange 2024 1) \<rparr>"
  have t: "(\<forall>p \<in> set (clusterByWeeks [decemberMessage]). \<forall>m \<in> set (wmessages (snd p)).
       fst p = String_of (year m) @ str ''-W'' @ padStart2 (String_of (week m)))"
    and c: "clusterByWeeks [decemberMessage] = [(str ''2024-W01'', ?c)]"
    using week_clusters_keyed_by_calendar_year [of "[decemberMessage]"] by blast+
  have mem: "(str ''2024-W01'', ?c) \<in> set (clusterByWeeks [decemberMessage])"
    unfolding c by simp
  have "fst (str ''2024-W01'', ?c)
          = String_of (year decemberMessage) @ str ''-W'' @ padStart2 (String_of (week decemberMessage))"
    using t mem by fastforce
  then show ?thesis
    using mem by simp
qed

section \<open>Regular expressions of the host\<close>

text \<open>
  The regular expressions of \<open>processContent\<close> are written in this fragment of the host's
  syntax.  \<open>Many p n g\<close> repeats a character class at least \<open>n\<close> times, greedily when \<open>g\<close>
  holds and lazily otherwise; \<open>LitI\<close> is a literal under the \<open>i\<close> flag.
\<close>

datatype regex =
    Lit jsstring
  | LitI jsstring
  | Cls "nat \<Rightarrow> bool"
  | Seq regex regex
  | Alt regex regex
  | Opt regex
  | Many "nat \<Rightarrow> bool" nat bool
  | Grp regex

fun seqs :: "regex list \<Rightarrow> regex" where
  "seqs [] = Lit []"
| "seqs [r] = r"
| "seqs (r # rs) = Seq r (seqs rs)"

text \<open>Case folding of the \<open>i\<close> flag and of the extension test: only ASCII letters matter.\<close>

definition lower :: "nat \<Rightarrow> nat" where
  "lower c = (if 65 \<le> c \<and> c \<le> 90 then c + 32 else c)"

definition toLowerCase :: "jsstring \<Rightarrow> jsstring" where
  "toLowerCase s = map lower s"

text \<open>
  \<open>rmatch r s\<close> lists the ways \<open>r\<close> matches a prefix of \<open>s\<close>, in the order in which the
  backtracking matcher of the host tries them: each way is the list of captured groups and
  the rest of the string.
\<close>

fun rmatch :: "regex \<Rightarrow> jsstring \<Rightarrow> (jsstring list \<times> jsstring) list" where
  "rmatch (Lit l) s = (if take (length l) s = l then [([], drop (length l) s)] else [])"
| "rmatch (LitI l) s =
     (if map lower (take (length l) s) = map lower l then [([], drop (length l) s)] else [])"
| "rmatch (Cls p) s = (case s of [] \<Rightarrow> [] | c # cs \<Rightarrow> if p c then [([], cs)] else [])"
| "rmatch (Seq a b) s =
     concat (map (\<lambda>(caps1, s1). map (\<lambda>(caps2, s2). (caps1 @ caps2, s2)) (rmatch b s1))
                 (rmatch a s))"
| "rmatch (Alt a b) s = rmatch a s @ rmatch b s"
| "rmatch (Opt a) s = rmatch a s @ [([], s)]"
| "rmatch (Many p n greedy) s =
     (let ks = [n..<Suc (length (takeWhile p s))]
      in map (\<lambda>i. ([], drop i s)) (if greedy then rev ks else ks))"
| "rmatch (Grp a) s =
     map (\<lambda>(caps, s'). (take (length s - length s') s # caps, s')) (rmatch a s)"

text \<open>The match the host finds at the start of \<open>s\<close>: the first way, if there is one.\<close>

definition matchAt :: "regex \<Rightarrow> jsstring \<Rightarrow> (jsstring list \<times> jsstring) option" where
  "matchAt r s = (case rmatch r s of [] \<Rightarrow> None | x # _ \<Rightarrow> Some x)"

text \<open>\<open>r.test(s)\<close> from \<open>lastIndex = 0\<close>: is there a match at some position?\<close>

fun test :: "regex \<Rightarrow> jsstring \<Rightarrow> bool" where
  "test r [] = (matchAt r [] \<noteq> None)"
| "test r (c # cs) = (matchAt r (c # cs) \<noteq> None \<or> test r cs)"

text \<open>
  \<open>s.replace(r, f)\<close> and \<open>s.match(r)\<close> for a regular expression with the \<open>g\<close> flag: the
  string is scanned from left to right, \<open>skip\<close> counts the code units that still belong to
  the match found last.  The callback may throw.
\<close>

fun replaceFrom ::
  "regex \<Rightarrow> (jsstring list \<Rightarrow> error + jsstring) \<Rightarrow> nat \<Rightarrow> jsstring \<Rightarrow> error + jsstring" where
  "replaceFrom r f skip [] =
     (if skip = 0
      then (case matchAt r [] of None \<Rightarrow> Inr [] | Some (caps, _) \<Rightarrow> f caps)
      else Inr [])"
| "replaceFrom r f skip (c # cs) =
     (if skip > 0 then replaceFrom r f (skip - 1) cs
      else
        case matchAt r (c # cs) of
          None \<Rightarrow> map_sum id ((#) c) (replaceFrom r f 0 cs)
        | Some (caps, rest) \<Rightarrow>
            (case f caps of
               Inl e \<Rightarrow> Inl e
             | Inr rep \<Rightarrow>
                 let n = length (c # cs) - length rest
                 in if n = 0 then map_sum id (\<lambda>out. rep @ c # out) (replaceFrom r f 0 cs)
                    else map_sum id ((@) rep) (replaceFrom r f (n - 1) cs)))"

definition replace :: "regex \<Rightarrow> (jsstring list \<Rightarrow> error + jsstring) \<Rightarrow> jsstring \<Rightarrow> error + jsstring"
  where "replace r f s = replaceFrom r f 0 s"

fun matchAllFrom :: "regex \<Rightarrow> nat \<Rightarrow> jsstring \<Rightarrow> jsstring list" where
  "matchAllFrom r skip [] =
     (if skip = 0 then (case matchAt r [] of None \<Rightarrow> [] | Some _ \<Rightarrow> [[]]) else [])"
| "matchAllFrom r skip (c # cs) =
     (if skip > 0 then matchAllFrom r (skip - 1) cs
      else
        case matchAt r (c # cs) of
          None \<Rightarrow> matchAllFrom r 0 cs
        | Some (caps, rest) \<Rightarrow>
            (let n = length (c # cs) - length rest
             in take n (c # cs) # matchAllFrom r (n - 1) cs))"

definition matchAll :: "regex \<Rightarrow> jsstring \<Rightarrow> jsstring list" where
  "matchAll r s = matchAllFrom r 0 s"

text \<open>The character classes \<open>\s\<close>, \<open>\w\<close>, \<open>\d\<close> and \<open>.\<close> of the host.\<close>

definition is_space :: "nat \<Rightarrow> bool" where
  "is_space c \<longleftrightarrow>
     c \<in> {9, 10, 11, 12, 13, 32, 160, 5760, 8232, 8233, 8239, 8287, 12288, 65279}
     \<or> (8192 \<le> c \<and> c \<le> 8202)"

definition is_digit :: "nat \<Rightarrow> bool" where
  "is_digit c \<longleftrightarrow> 48 \<le> c \<and> c \<le> 57"

definition is_word :: "nat \<Rightarrow> bool" where
  "is_word c \<longleftrightarrow> (97 \<le> c \<and> c \<le> 122) \<or> (65 \<le> c \<and> c \<le> 90) \<or> is_digit c \<or> c = 95"

definition is_dot :: "nat \<Rightarrow> bool" where
  "is_dot c \<longleftrightarrow> c \<notin> {10, 13, 8232, 8233}"

text \<open>\<open>s.trim()\<close> and \<open>s.endsWith(t)\<close>.\<close>

definition trim :: "jsstring \<Rightarrow> jsstring" where
  "trim s = rev (dropWhile is_space (rev (dropWhile is_space s)))"

definition endsWith :: "jsstring \<Rightarrow> jsstring \<Rightarrow> bool" where
  "endsWith s t \<longleftrightarrow> length t \<le> length s \<and> drop (length s - length t) s = t"

section \<open>The host's decodeURIComponent\<close>

text \<open>
  \<open>decodeURIComponent\<close> after ECMA-262 (\<open>Decode\<close>): an escape \<open>%XX\<close> stands for a
  byte, the bytes of one character must be its well-formed UTF-8 encoding, and the character
  is appended in UTF-16.  \<open>None\<close> is the thrown \<open>URIError\<close>.
\<close>

definition hexDigit :: "nat \<Rightarrow> nat option" where
  "hexDigit c =
     (if 48 \<le> c \<and> c \<le> 57 then Some (c - 48)
      else if 65 \<le> c \<and> c \<le> 70 then Some (c - 55)
      else if 97 \<le> c \<and> c \<le> 102 then Some (c - 87)
      else None)"

fun pctByte :: "jsstring \<Rightarrow> (nat \<times> jsstring) option" where
  "pctByte (p # h # l # rest) =
     (if p = 37
      then (case (hexDigit h, hexDigit l) of
              (Some a, Some b) \<Rightarrow> Some (16 * a + b, rest)
            | _ \<Rightarrow> None)
      else None)"
| "pctByte _ = None"

fun pctBytes :: "nat \<Rightarrow> jsstring \<Rightarrow> (nat list \<times> jsstring) option" where
  "pctBytes 0 s = Some ([], s)"
| "pctBytes (Suc n) s =
     (case pctByte s of
        None \<Rightarrow> None
      | Some (b, rest) \<Rightarrow>
          (case pctBytes n rest of
             None \<Rightarrow> None
           | Some (bs, rest') \<Rightarrow> Some (b # bs, rest')))"

definition leadingOnes :: "nat \<Rightarrow> nat" where
  "leadingOnes b =
     (if b < 128 then 0 else if b < 192 then 1 else if b < 224 then 2
      else if b < 240 then 3 else if b < 248 then 4 else 5)"

definition utf8CodePoint :: "nat \<Rightarrow> nat list \<Rightarrow> nat option" where
  "utf8CodePoint b bs =
     (if \<not> list_all (\<lambda>x. 128 \<le> x \<and> x < 192) bs then None
      else
        let v = foldl (\<lambda>acc x. acc * 64 + (x - 128)) (b mod 2 ^ (7 - leadingOnes b)) bs
        in if length bs = 1 \<and> 128 \<le> v then Some v
           else if length bs = 2 \<and> 2048 \<le> v \<and> \<not> (55296 \<le> v \<and> v \<le> 57343) then Some v
           else if length bs = 3 \<and> 65536 \<le> v \<and> v \<le> 1114111 then Some v
           else None)"

definition utf16Encode :: "nat \<Rightarrow> jsstring" where
  "utf16Encode v =
     (if v < 65536 then [v]
      else [55296 + (v - 65536) div 1024, 56320 + (v - 65536) mod 1024])"

lemma pctByte_shorter [termination_simp]:
  "pctByte s = Some (b, rest) \<Longrightarrow> length rest < length s"
  by (induction s rule: pctByte.induct) (auto split: if_splits option.splits)

lemma pctBytes_shorter [termination_simp]:
  "pctBytes n s = Some (bs, rest) \<Longrightarrow> length rest \<le> length s"
proof (induction n arbitrary: s bs rest)
  case 0
  then show ?case by simp
next
  case (Suc n)
  then show ?case
    by (fastforce split: option.splits dest: pctByte_shorter)
qed

function decodeURIComponent :: "jsstring \<Rightarrow> jsstring option" where
  "decodeURIComponent [] = Some []"
| "decodeURIComponent (c # cs) =
     (if c \<noteq> 37 then map_option ((#) c) (decodeURIComponent cs)
      else
        case pctByte (c # cs) of
          None \<Rightarrow> None
        | Some (b, rest) \<Rightarrow>
            if leadingOnes b = 0 then map_option ((#) b) (decodeURIComponent rest)
            else if leadingOnes b = 1 \<or> leadingOnes b > 4 then None
            else
              (case pctBytes (leadingOnes b - 1) rest of
                 None \<Rightarrow> None
               | Some (bs, rest') \<Rightarrow>
                   (case utf8CodePoint b bs of
                      None \<Rightarrow> None
                    | Some v \<Rightarrow> map_option ((@) (utf16Encode v)) (decodeURIComponent rest'))))"
  by pat_completeness auto
termination
proof (relation "measure length")
  show "wf (measure length)" by simp
next
  fix c cs
  show "(cs, c # cs) \<in> measure length" by simp
next
  fix c cs x2 b rest
  assume "pctByte (c # cs) = Some x2" "(b, rest) = x2"
  then show "(rest, c # cs) \<in> measure length"
    using pctByte_shorter [of "c # cs" b rest] by simp
next
  fix c cs x2 b rest x2a bs rest' v
  assume "pctByte (c # cs) = Some x2" "(b, rest) = x2"
    "pctBytes (leadingOnes b - 1) rest = Some x2a" "(bs, rest') = x2a"
  then show "(rest', c # cs) \<in> measure length"
    using pctByte_shorter [of "c # cs" b rest] pctBytes_shorter [of "leadingOnes b - 1" rest bs rest']
    by simp
qed


section \<open>Parser: content classification\<close>

definition stickerRegex :: regex where
  "stickerRegex =
     seqs [Lit (str ''[http''), Opt (Lit (str ''s'')), Lit (str ''://''),
           Many (\<lambda>c. c \<noteq> 93) 0 True,
           Lit (str ''/''),
           Grp (Many (\<lambda>c. c \<noteq> 47 \<and> c \<noteq> 93) 1 False),
           Lit (str ''.''),
           Grp (Alt (Lit (str ''webp'')) (Alt (Lit (str ''gif'')) (Alt (Lit (str ''png''))
                (Alt (Lit (str ''jpg'')) (Lit (str ''jpeg'')))))),
           Lit (str '']'')]"

definition tiktokRegex :: regex where
  "tiktokRegex =
     seqs [LitI (str ''http''), Opt (LitI (str ''s'')), LitI (str ''://''),
           Opt (Alt (LitI (str ''www.'')) (LitI (str ''m.''))),
           LitI (str ''tiktok''), Opt (LitI (str ''v'')), LitI (str ''.com/''),
           Alt (LitI (str ''share/video/''))
               (seqs [LitI (str ''@''), Many (\<lambda>c. is_word c \<or> c = 46 \<or> c = 45) 1 True,
                      LitI (str ''/video/'')]),
           Grp (Many is_digit 1 True),
           Opt (Seq (Cls (\<lambda>c. c = 47 \<or> c = 63 \<or> c = 35 \<or> c = 38)) (Many is_dot 0 True))]"

definition linkRegex :: regex where
  "linkRegex =
     seqs [Lit (str ''http''), Opt (Lit (str ''s'')), Lit (str ''://''),
           Many (\<lambda>c. \<not> is_space c) 1 True]"

definition mediaExtensions :: "jsstring list" where
  "mediaExtensions =
     map str [''.jpg'', ''.jpeg'', ''.png'', ''.gif'', ''.webp'', ''.mp4'', ''.mov'', ''.avi'']"

text \<open>The two replacement callbacks of \<open>processContent\<close>.\<close>

definition stickerReplacement :: "jsstring list \<Rightarrow> error + jsstring" where
  "stickerReplacement caps =
     (case decodeURIComponent (case caps of [] \<Rightarrow> str ''undefined'' | p1 # _ \<Rightarrow> p1) of
        None \<Rightarrow> Inl URIError
      | Some name \<Rightarrow> Inr (str ''[Sticker: '' @ name @ str '']''))"

definition tiktokReplacement :: "jsstring list \<Rightarrow> error + jsstring" where
  "tiktokReplacement caps = Inr (str ''[Media: TikTok Video]'')"

text \<open>
  \<open>Parser.processContent\<close> (parser.js, lines 150-200).  The argument \<open>URL\<close> is the host's
  URL parser and \<open>raw\<close> is the source's parameter \<open>content\<close>: \<open>URL link\<close> is \<open>None\<close> when \<open>new URL(link)\<close> throws a \<open>TypeError\<close>, else the
  pair of \<open>hostname\<close> and \<open>pathname\<close>.
\<close>

definition processContent ::
  "(jsstring \<Rightarrow> (jsstring \<times> jsstring) option) \<Rightarrow> jsstring \<Rightarrow> error + (jsstring \<times> msgtype)" where
  "processContent URL raw =
     (case replace stickerRegex stickerReplacement raw of
        Inl e \<Rightarrow> Inl e
      | Inr cleanContent1 \<Rightarrow>
     (case replace tiktokRegex tiktokReplacement cleanContent1 of
        Inl e \<Rightarrow> Inl e
      | Inr cleanContent \<Rightarrow>
          if trim cleanContent = [] then Inr ([], Empty)
          else if test stickerRegex raw then Inr (cleanContent, Sticker)
          else if test tiktokRegex raw then Inr (cleanContent, Media)
          else if test linkRegex raw then
            (let links = matchAll linkRegex raw
             in if list_ex (\<lambda>link. list_ex (\<lambda>ext. endsWith (toLowerCase link) ext) mediaExtensions) links
                then Inr (cleanContent, Media)
                else
                  (case links of
                     [] \<Rightarrow> Inl TypeError
                   | link0 # _ \<Rightarrow>
                       (case URL link0 of
                          None \<Rightarrow> Inl TypeError
                        | Some (hostname, pathname) \<Rightarrow>
                            Inr (str ''[Link: '' @ hostname @ pathname @ str '']'', Link))))
          else Inr (cleanContent, Text)))"

section \<open>Properties of the scanner\<close>

lemma trim_empty: "trim s = [] \<longleftrightarrow> list_all is_space s"
proof
  assume "trim s = []"
  then have all: "\<forall>x \<in> set (dropWhile is_space s). is_space x"
    by (simp add: trim_def dropWhile_eq_Nil_conv)
  have "dropWhile is_space s = []"
  proof (rule ccontr)
    assume ne: "dropWhile is_space s \<noteq> []"
    then have "\<not> is_space (hd (dropWhile is_space s))"
      by (rule hd_dropWhile)
    moreover have "hd (dropWhile is_space s) \<in> set (dropWhile is_space s)"
      using ne by simp
    ultimately show False using all by blast
  qed
  then show "list_all is_space s"
    by (simp add: dropWhile_eq_Nil_conv list_all_iff)
next
  assume "list_all is_space s"
  then have "dropWhile is_space s = []"
    by (simp add: dropWhile_eq_Nil_conv list_all_iff)
  then have "trim s = rev (dropWhile is_space (rev []))"
    unfolding trim_def by (simp only:)
  then show "trim s = []"
    by simp
qed

lemma map_sum_Inr_conv: "map_sum f g x = Inr b \<longleftrightarrow> (\<exists>y. x = Inr y \<and> b = g y)"
  by (cases x) auto

lemma rmatch_Seq_Lit_hd:
  assumes "rmatch (Seq (Lit (c # l)) r) s \<noteq> []"
  shows "\<exists>t. s = c # t"
proof (cases s)
  case Nil
  with assms show ?thesis by simp
next
  case (Cons d t)
  with assms show ?thesis by (auto split: if_splits)
qed

lemma rmatch_Seq_LitI_hd:
  assumes "rmatch (Seq (LitI (c # l)) r) s \<noteq> []"
  shows "\<exists>d t. s = d # t \<and> lower d = lower c"
proof (cases s)
  case Nil
  with assms show ?thesis by simp
next
  case (Cons d t)
  with assms show ?thesis by (auto split: if_splits)
qed

lemma matchAt_Some_iff: "matchAt r s \<noteq> None \<longleftrightarrow> rmatch r s \<noteq> []"
  by (simp add: matchAt_def split: list.splits)

lemma sticker_start:
  assumes "matchAt stickerRegex s \<noteq> None"
  shows "\<exists>t. s = 91 # t"
proof -
  obtain rest where eq: "stickerRegex = Seq (Lit (91 # str ''http'')) rest"
    by (simp add: stickerRegex_def str_def)
  have "rmatch stickerRegex s \<noteq> []"
    using assms matchAt_Some_iff by blast
  then have "rmatch (Seq (Lit (91 # str ''http'')) rest) s \<noteq> []"
    unfolding eq .
  then show ?thesis
    by (rule rmatch_Seq_Lit_hd)
qed

lemma tiktok_start:
  assumes "matchAt tiktokRegex s \<noteq> None"
  shows "\<exists>d t. s = d # t \<and> lower d = 104"
proof -
  obtain rest where eq: "tiktokRegex = Seq (LitI (104 # str ''ttp'')) rest"
    by (simp add: tiktokRegex_def str_def)
  have "rmatch tiktokRegex s \<noteq> []"
    using assms matchAt_Some_iff by blast
  then have "rmatch (Seq (LitI (104 # str ''ttp'')) rest) s \<noteq> []"
    unfolding eq .
  then have "\<exists>d t. s = d # t \<and> lower d = lower 104"
    by (rule rmatch_Seq_LitI_hd)
  then show ?thesis
    by (simp add: lower_def)
qed

lemma link_start:
  assumes "matchAt linkRegex s \<noteq> None"
  shows "\<exists>t. s = 104 # t"
proof -
  obtain rest where eq: "linkRegex = Seq (Lit (104 # str ''ttp'')) rest"
    by (simp add: linkRegex_def str_def)
  have "rmatch linkRegex s \<noteq> []"
    using assms matchAt_Some_iff by blast
  then have "rmatch (Seq (Lit (104 # str ''ttp'')) rest) s \<noteq> []"
    unfolding eq .
  then show ?thesis
    by (rule rmatch_Seq_Lit_hd)
qed

lemma lower_h: "lower d = 104 \<Longrightarrow> \<not> is_space d"
  by (auto simp: lower_def is_space_def split: if_splits)

definition startsVisible :: "regex \<Rightarrow> bool" where
  "startsVisible r \<longleftrightarrow> (\<forall>s. matchAt r s \<noteq> None \<longrightarrow> s \<noteq> [] \<and> \<not> is_space (hd s))"

lemma startsVisible_regexes:
  "startsVisible stickerRegex" "startsVisible tiktokRegex" "startsVisible linkRegex"
proof -
  show "startsVisible stickerRegex"
    unfolding startsVisible_def
  proof (intro allI impI)
    fix s assume "matchAt stickerRegex s \<noteq> None"
    then obtain t where "s = 91 # t" using sticker_start by blast
    then show "s \<noteq> [] \<and> \<not> is_space (hd s)" by (simp add: is_space_def)
  qed
  show "startsVisible tiktokRegex"
    unfolding startsVisible_def
  proof (intro allI impI)
    fix s assume "matchAt tiktokRegex s \<noteq> None"
    then obtain d t where "s = d # t" "lower d = 104" using tiktok_start by blast
    then show "s \<noteq> [] \<and> \<not> is_space (hd s)" using lower_h by simp
  qed
  show "startsVisible linkRegex"
    unfolding startsVisible_def
  proof (intro allI impI)
    fix s assume "matchAt linkRegex s \<noteq> None"
    then obtain t where "s = 104 # t" using link_start by blast
    then show "s \<noteq> [] \<and> \<not> is_space (hd s)" by (simp add: is_space_def)
  qed
qed

lemma blank_no_match:
  assumes "startsVisible r"
  shows "list_all is_space s \<Longrightarrow> \<not> test r s"
proof (induction s)
  case Nil
  have "matchAt r [] = None"
  proof (rule ccontr)
    assume "matchAt r [] \<noteq> None"
    then have "([]::jsstring) \<noteq> []"
      using assms unfolding startsVisible_def by blast
    then show False by simp
  qed
  then show ?case by simp
next
  case (Cons c cs)
  have "matchAt r (c # cs) = None"
  proof (rule ccontr)
    assume "matchAt r (c # cs) \<noteq> None"
    then have "\<not> is_space (hd (c # cs))"
      using assms unfolding startsVisible_def by blast
    then show False using Cons.prems by simp
  qed
  then show ?case using Cons by simp
qed

lemma no_match_replace: "\<not> test r s \<Longrightarrow> replaceFrom r f 0 s = Inr s"
  by (induction s) (auto split: option.splits)

lemma no_match_matchAll: "\<not> test r s \<Longrightarrow> matchAllFrom r 0 s = []"
  by (induction s) (auto split: option.splits)

lemma match_matchAll: "test r s \<Longrightarrow> matchAllFrom r 0 s \<noteq> []"
  by (induction s) (auto simp: Let_def split: option.splits)

lemma replaceFrom_nonblank:
  assumes "\<And>caps rep. f caps = Inr rep \<Longrightarrow> \<not> list_all is_space rep"
  shows "replaceFrom r f k s = Inr out \<Longrightarrow> \<not> list_all is_space (drop k s)
           \<Longrightarrow> \<not> list_all is_space out"
proof (induction s arbitrary: k out)
  case Nil
  then show ?case by simp
next
  case (Cons c cs)
  show ?case
  proof (cases "k > 0")
    case True
    then obtain k' where k: "k = Suc k'" by (cases k) auto
    with Cons.prems have "replaceFrom r f k' cs = Inr out" "\<not> list_all is_space (drop k' cs)"
      by simp_all
    then show ?thesis using Cons.IH by blast
  next
    case False
    then have k0: "k = 0" by simp
    show ?thesis
    proof (cases "matchAt r (c # cs)")
      case None
      with Cons.prems k0 obtain out' where o: "replaceFrom r f 0 cs = Inr out'" "out = c # out'"
        by (auto simp: map_sum_Inr_conv)
      show ?thesis
      proof (cases "is_space c")
        case True
        with Cons.prems k0 have "\<not> list_all is_space (drop 0 cs)" by simp
        then have "\<not> list_all is_space out'" using Cons.IH o(1) by blast
        then show ?thesis using o by simp
      next
        case False
        then show ?thesis using o by simp
      qed
    next
      case (Some m)
      obtain caps rest where m: "m = (caps, rest)" by (cases m)
      from Cons.prems k0 Some m obtain rep where rep: "f caps = Inr rep"
        by (cases "f caps") auto
      have nb: "\<not> list_all is_space rep" using assms rep .
      from Cons.prems k0 Some m rep obtain tl' where "out = rep @ tl'"
        by (auto simp: Let_def map_sum_Inr_conv split: if_splits)
      then show ?thesis using nb by simp
    qed
  qed
qed

lemma replaceFrom_total:
  assumes "\<And>caps. \<exists>rep. f caps = Inr rep"
  shows "\<exists>out. replaceFrom r f k s = Inr out"
proof (induction s arbitrary: k)
  case Nil
  show ?case using assms by (auto split: option.splits)
next
  case (Cons c cs)
  show ?case
  proof (cases "k > 0")
    case True
    then show ?thesis using Cons.IH [of "k - 1"] by simp
  next
    case False
    then have k0: "k = 0" by simp
    show ?thesis
    proof (cases "matchAt r (c # cs)")
      case None
      then show ?thesis using Cons.IH [of 0] k0 by auto
    next
      case (Some m)
      obtain caps rest where m: "m = (caps, rest)" by (cases m)
      obtain rep where rep: "f caps = Inr rep" using assms by blast
      obtain o1 where o1: "replaceFrom r f 0 cs = Inr o1"
        using Cons.IH by blast
      obtain o2 where o2: "replaceFrom r f (length (c # cs) - length rest - 1) cs = Inr o2"
        using Cons.IH by blast
      show ?thesis
        using Some m rep o1 o2 k0 by (simp add: Let_def)
    qed
  qed
qed

lemma replaceFrom_error:
  "replaceFrom r f k s = Inl e \<Longrightarrow> \<exists>caps. f caps = Inl e"
proof (induction s arbitrary: k)
  case Nil
  then show ?case by (auto split: option.splits if_splits)
next
  case (Cons c cs)
  show ?case
  proof (cases "k > 0")
    case True
    then show ?thesis using Cons by simp
  next
    case False
    then have k0: "k = 0" by simp
    show ?thesis
    proof (cases "matchAt r (c # cs)")
      case None
      then have "replaceFrom r f 0 cs = Inl e"
        using Cons.prems k0 by (cases "replaceFrom r f 0 cs") auto
      then show ?thesis using Cons.IH by blast
    next
      case (Some m)
      obtain caps rest where m: "m = (caps, rest)" by (cases m)
      show ?thesis
      proof (cases "f caps")
        case (Inl e')
        then show ?thesis using Cons.prems k0 Some m by auto
      next
        case (Inr rep)
        then have "replaceFrom r f 0 cs = Inl e \<or> replaceFrom r f (length (c # cs) - length rest - 1) cs = Inl e"
          using Cons.prems k0 Some m
          by (cases "replaceFrom r f 0 cs"; cases "replaceFrom r f (length (c # cs) - length rest - 1) cs")
             (auto simp: Let_def split: if_splits)
        then show ?thesis using Cons.IH by blast
      qed
    qed
  qed
qed

lemma sticker_error: "replace stickerRegex stickerReplacement s = Inl e \<Longrightarrow> e = URIError"
proof -
  assume "replace stickerRegex stickerReplacement s = Inl e"
  then obtain caps where "stickerReplacement caps = Inl e"
    unfolding replace_def using replaceFrom_error by blast
  then show ?thesis
    by (auto simp: stickerReplacement_def split: option.splits)
qed

lemma stickerReplacement_visible: "stickerReplacement caps = Inr rep \<Longrightarrow> \<not> list_all is_space rep"
  by (auto simp: stickerReplacement_def str_def is_space_def split: option.splits)

lemma tiktokReplacement_visible: "tiktokReplacement caps = Inr rep \<Longrightarrow> \<not> list_all is_space rep"
  by (auto simp: tiktokReplacement_def str_def is_space_def)

lemma tiktok_total: "\<exists>c. replace tiktokRegex tiktokReplacement s = Inr c"
  unfolding replace_def by (rule replaceFrom_total) (simp add: tiktokReplacement_def)

lemma sticker_replace_visible:
  assumes "replace stickerRegex stickerReplacement s = Inr out" and "\<not> list_all is_space s"
  shows "\<not> list_all is_space out"
  using replaceFrom_nonblank [of stickerReplacement stickerRegex 0 s out, OF stickerReplacement_visible]
    assms unfolding replace_def by simp

lemma tiktok_replace_visible:
  assumes "replace tiktokRegex tiktokReplacement s = Inr out" and "\<not> list_all is_space s"
  shows "\<not> list_all is_space out"
  using replaceFrom_nonblank [of tiktokReplacement tiktokRegex 0 s out, OF tiktokReplacement_visible]
    assms unfolding replace_def by simp

lemma replace_no_match: "\<not> test r s \<Longrightarrow> replace r f s = Inr s"
  by (simp add: replace_def no_match_replace)

text \<open>The extension test over the links of a message.\<close>

definition anyMedia :: "jsstring list \<Rightarrow> bool" where
  "anyMedia links =
     list_ex (\<lambda>link. list_ex (\<lambda>ext. endsWith (toLowerCase link) ext) mediaExtensions) links"

lemma processContent_blank:
  assumes "list_all is_space raw"
  shows "processContent URL raw = Inr ([], Empty)"
proof -
  have "\<not> test stickerRegex raw" "\<not> test tiktokRegex raw"
    using blank_no_match startsVisible_regexes assms by blast+
  then have "replace stickerRegex stickerReplacement raw = Inr raw"
    "replace tiktokRegex tiktokReplacement raw = Inr raw"
    by (simp_all add: replace_no_match)
  then show ?thesis
    using assms by (simp add: processContent_def trim_empty)
qed

lemma processContent_sticker:
  assumes "\<not> list_all is_space raw" and "test stickerRegex raw"
  shows "(replace stickerRegex stickerReplacement raw = Inl URIError
            \<and> processContent URL raw = Inl URIError)
         \<or> (\<exists>c1 c. replace stickerRegex stickerReplacement raw = Inr c1
                 \<and> replace tiktokRegex tiktokReplacement c1 = Inr c
                 \<and> processContent URL raw = Inr (c, Sticker))"
proof (cases "replace stickerRegex stickerReplacement raw")
  case (Inl e)
  then have "e = URIError" by (rule sticker_error)
  then show ?thesis using Inl by (simp add: processContent_def)
next
  case (Inr c1)
  obtain c where c: "replace tiktokRegex tiktokReplacement c1 = Inr c"
    using tiktok_total by blast
  have "\<not> list_all is_space c1"
    using sticker_replace_visible [OF Inr assms(1)] .
  then have "\<not> list_all is_space c"
    using tiktok_replace_visible [OF c] by blast
  then have "processContent URL raw = Inr (c, Sticker)"
    using Inr c assms(2) by (simp add: processContent_def trim_empty)
  then show ?thesis using Inr c by blast
qed

lemma processContent_tiktok:
  assumes "\<not> list_all is_space raw" and "\<not> test stickerRegex raw" and "test tiktokRegex raw"
  shows "\<exists>c. replace tiktokRegex tiktokReplacement raw = Inr c
              \<and> processContent URL raw = Inr (c, Media)"
proof -
  have s: "replace stickerRegex stickerReplacement raw = Inr raw"
    using assms(2) by (rule replace_no_match)
  obtain c where c: "replace tiktokRegex tiktokReplacement raw = Inr c"
    using tiktok_total by blast
  have "\<not> list_all is_space c"
    using tiktok_replace_visible [OF c assms(1)] .
  then have "processContent URL raw = Inr (c, Media)"
    using s c assms by (simp add: processContent_def trim_empty)
  then show ?thesis using c by blast
qed

lemma processContent_link:
  assumes "\<not> list_all is_space raw" and "\<not> test stickerRegex raw" and "\<not> test tiktokRegex raw"
    and "test linkRegex raw"
  shows "\<exists>link0 links. matchAll linkRegex raw = link0 # links \<and>
           processContent URL raw
             = (if anyMedia (link0 # links) then Inr (raw, Media)
                else case URL link0 of
                       None \<Rightarrow> Inl TypeError
                     | Some (hostname, pathname) \<Rightarrow>
                         Inr (str ''[Link: '' @ hostname @ pathname @ str '']'', Link))"
proof -
  have s: "replace stickerRegex stickerReplacement raw = Inr raw"
    using assms(2) by (rule replace_no_match)
  have t: "replace tiktokRegex tiktokReplacement raw = Inr raw"
    using assms(3) by (rule replace_no_match)
  obtain link0 links where l: "matchAll linkRegex raw = link0 # links"
    using match_matchAll [OF assms(4)] unfolding matchAll_def
    by (cases "matchAllFrom linkRegex 0 raw") auto
  have "processContent URL raw
             = (if anyMedia (link0 # links) then Inr (raw, Media)
                else case URL link0 of
                       None \<Rightarrow> Inl TypeError
                     | Some (hostname, pathname) \<Rightarrow>
                         Inr (str ''[Link: '' @ hostname @ pathname @ str '']'', Link))"
    using s t l assms unfolding processContent_def anyMedia_def
    by (simp add: trim_empty Let_def)
  then show ?thesis using l by blast
qed

lemma processContent_text:
  assumes "\<not> list_all is_space raw" and "\<not> test stickerRegex raw" and "\<not> test tiktokRegex raw"
    and "\<not> test linkRegex raw"
  shows "processContent URL raw = Inr (raw, Text)"
proof -
  have s: "replace stickerRegex stickerReplacement raw = Inr raw"
    using assms(2) by (rule replace_no_match)
  have t: "replace tiktokRegex tiktokReplacement raw = Inr raw"
    using assms(3) by (rule replace_no_match)
  show ?thesis
    using s t assms by (simp add: processContent_def trim_empty)
qed

text \<open>
  A URL parser for the examples: it knows one link, which it splits as the host does, and
  rejects every other string.
\<close>

definition exampleURL :: "jsstring \<Rightarrow> (jsstring \<times> jsstring) option" where
  "exampleURL link =
     (if link = str ''https://example.com/path'' then Some (str ''example.com'', str ''/path'')
      else None)"

lemma no_match_placeholders:
  "\<not> test stickerRegex (str ''[Sticker: y]'')" "\<not> test tiktokRegex (str ''[Sticker: y]'')"
  "\<not> test linkRegex (str ''[Sticker: y]'')"
  "\<not> test stickerRegex (str ''[Link: example.com/path]'')"
  "\<not> test tiktokRegex (str ''[Link: example.com/path]'')"
  "\<not> test linkRegex (str ''[Link: example.com/path]'')"
  by (simp_all add: stickerRegex_def tiktokRegex_def linkRegex_def matchAt_def str_def Let_def lower_def)

lemma visible_placeholders:
  "\<not> list_all is_space (str ''[Sticker: y]'')" "\<not> list_all is_space (str ''[Link: example.com/path]'')"
  by (simp_all add: str_def is_space_def)

lemma sticker_example_match:
  "matchAt stickerRegex (str ''[https://x/y.png]'') = Some ([str ''y'', str ''png''], [])"
  by (simp add: stickerRegex_def matchAt_def str_def Let_def)

lemma sticker_no_empty: "matchAt stickerRegex [] = None"
  using sticker_start [of "[]"] by (cases "matchAt stickerRegex []") auto

lemma sticker_example:
  "processContent URL (str ''[https://x/y.png]'') = Inr (str ''[Sticker: y]'', Sticker)"
proof -
  have d: "decodeURIComponent (str ''y'') = Some (str ''y'')"
    by (simp add: str_def)
  have r: "replace stickerRegex stickerReplacement (str ''[https://x/y.png]'') = Inr (str ''[Sticker: y]'')"
    using sticker_example_match d sticker_no_empty
    by (simp add: replace_def stickerReplacement_def str_def)
  have t: "replace tiktokRegex tiktokReplacement (str ''[Sticker: y]'') = Inr (str ''[Sticker: y]'')"
    using no_match_placeholders(2) by (rule replace_no_match)
  have m: "test stickerRegex (str ''[https://x/y.png]'')"
    using sticker_example_match by (simp add: str_def)
  show ?thesis
    using r t m visible_placeholders(1) by (simp add: processContent_def trim_empty)
qed

lemma malformed_escape_match:
  "matchAt stickerRegex (str ''[http://a/%.png]'') = Some ([str ''%'', str ''png''], [])"
  by (simp add: stickerRegex_def matchAt_def str_def Let_def)

lemma link_example:
  "processContent exampleURL (str ''https://example.com/path'')
     = Inr (str ''[Link: example.com/path]'', Link)"
  by (simp add: processContent_def replace_def matchAll_def trim_def exampleURL_def
      stickerRegex_def tiktokRegex_def linkRegex_def mediaExtensions_def endsWith_def
      toLowerCase_def matchAt_def str_def Let_def lower_def is_space_def)

text \<open>
  Claim C2.  By the stated precedence a content that is not blank and holds a bracketed URL
  ending in an image extension is of type \<open>sticker\<close>, with the URL replaced by its
  placeholder.  The code does not do so for the content \<open>[http://a/%.png]\<close>: the file name
  \<open>%\<close>, which the sticker pattern accepts, is not a well-formed percent-encoding, the
  decoding under the comment \<open>try decode p1\<close> (parser.js, line 162) throws, nothing catches
  the \<open>URIError\<close>, and \<open>processContent\<close> yields no classification.
\<close>

theorem processContent_sticker_throws:
  "\<not> list_all is_space (str ''[http://a/%.png]'')
   \<and> test stickerRegex (str ''[http://a/%.png]'')
   \<and> processContent exampleURL (str ''[http://a/%.png]'') = Inl URIError"
proof -
  have d: "decodeURIComponent (str ''%'') = None"
    by (simp add: str_def)
  have "replace stickerRegex stickerReplacement (str ''[http://a/%.png]'') = Inl URIError"
    using malformed_escape_match d by (simp add: replace_def stickerReplacement_def str_def)
  then have "processContent exampleURL (str ''[http://a/%.png]'') = Inl URIError"
    by (simp add: processContent_def)
  moreover have "test stickerRegex (str ''[http://a/%.png]'')"
    using malformed_escape_match by (simp add: str_def)
  moreover have "\<not> list_all is_space (str ''[http://a/%.png]'')"
    by (simp add: str_def is_space_def)
  ultimately show ?thesis by blast
qed

text \<open>
  Everywhere else the classification follows the stated precedence, first match winning;
  the only departures are the throws of the host's decoder and URL parser.  Whitespace-only
  content yields type \<open>empty\<close> with empty content.  Else, if
  a decorated media URL occurs: a \<open>URIError\<close> when a file name is not a well-formed
  percent-encoding, and otherwise type \<open>sticker\<close>, the content being the raw content with
  every decorated media URL replaced by its \<open>[Sticker: name]\<close> placeholder and then every
  short-video URL replaced by \<open>[Media: TikTok Video]\<close>.  Else, if a short-video URL occurs:
  type \<open>media\<close>, with every such URL replaced by the placeholder.  Else, if a bare URL
  occurs: type \<open>media\<close> and the content unchanged when some URL ends in a media extension;
  otherwise a \<open>TypeError\<close> when the first URL found does not parse, and else type \<open>link\<close>
  with the content \<open>[Link: host path]\<close> of that first URL.  Otherwise type \<open>text\<close> and the
  content unchanged.
\<close>

theorem processContent_precedence:
  "(list_all is_space raw \<longrightarrow> processContent URL raw = Inr ([], Empty))
   \<and> (\<not> list_all is_space raw \<and> test stickerRegex raw \<longrightarrow>
        (replace stickerRegex stickerReplacement raw = Inl URIError
           \<and> processContent URL raw = Inl URIError)
        \<or> (\<exists>c1 c. replace stickerRegex stickerReplacement raw = Inr c1
                \<and> replace tiktokRegex tiktokReplacement c1 = Inr c
                \<and> processContent URL raw = Inr (c, Sticker)))
   \<and> (\<not> list_all is_space raw \<and> \<not> test stickerRegex raw \<and> test tiktokRegex raw \<longrightarrow>
        (\<exists>c. replace tiktokRegex tiktokReplacement raw = Inr c
             \<and> processContent URL raw = Inr (c, Media)))
   \<and> (\<not> list_all is_space raw \<and> \<not> test stickerRegex raw \<and> \<not> test tiktokRegex raw
        \<and> test linkRegex raw \<longrightarrow>
        (\<exists>link0 links. matchAll linkRegex raw = link0 # links \<and>
           processContent URL raw
             = (if anyMedia (link0 # links) then Inr (raw, Media)
                else case URL link0 of
                       None \<Rightarrow> Inl TypeError
                     | Some (hostname, pathname) \<Rightarrow>
                         Inr (str ''[Link: '' @ hostname @ pathname @ str '']'', Link))))
   \<and> (\<not> list_all is_space raw \<and> \<not> test stickerRegex raw \<and> \<not> test tiktokRegex raw
        \<and> \<not> test linkRegex raw \<longrightarrow>
        processContent URL raw = Inr (raw, Text))"
  using processContent_blank [of raw URL] processContent_sticker [of raw URL]
    processContent_tiktok [of raw URL] processContent_link [of raw URL]
    processContent_text [of raw URL]
  by blast

theorem processContent_precedence_witness:
  "\<not> list_all is_space (str ''[Sticker: y]'')
   \<and> \<not> test stickerRegex (str ''[Sticker: y]'') \<and> \<not> test tiktokRegex (str ''[Sticker: y]'')
   \<and> \<not> test linkRegex (str ''[Sticker: y]'')
   \<and> processContent exampleURL (str ''[Sticker: y]'') = Inr (str ''[Sticker: y]'', Text)
   \<and> list_all is_space (str ''  '')
   \<and> processContent exampleURL (str ''  '') = Inr ([], Empty)"
proof -
  have b: "list_all is_space (str ''  '')"
    by (simp add: str_def is_space_def)
  have "processContent exampleURL (str ''[Sticker: y]'') = Inr (str ''[Sticker: y]'', Text)"
    using processContent_precedence [of "str ''[Sticker: y]''" exampleURL]
      no_match_placeholders(1,2,3) visible_placeholders(1) by blast
  moreover have "processContent exampleURL (str ''  '') = Inr ([], Empty)"
    using processContent_precedence [of "str ''  ''" exampleURL] b by blast
  ultimately show ?thesis
    using b no_match_placeholders(1,2,3) visible_placeholders(1) by blast
qed

text \<open>
  Claim C3, as stated, fails: the type is not stable.  A sticker message is rewritten to its
  placeholder with type \<open>sticker\<close>; \<open>processContent\<close> on the placeholder leaves the content
  alone but yields type \<open>text\<close>.
\<close>

theorem processContent_rerun_counterexample:
  "processContent exampleURL (str ''[https://x/y.png]'') = Inr (str ''[Sticker: y]'', Sticker)
   \<and> processContent exampleURL (str ''[Sticker: y]'') = Inr (str ''[Sticker: y]'', Text)"
  using sticker_example [of exampleURL]
    processContent_text [of "str ''[Sticker: y]''" exampleURL]
    no_match_placeholders(1,2,3) visible_placeholders(1)
  by blast

lemma processContent_Text_unchanged:
  assumes "processContent URL raw = Inr (pc, Text)"
  shows "pc = raw \<and> \<not> list_all is_space raw \<and> \<not> test stickerRegex raw
         \<and> \<not> test tiktokRegex raw \<and> \<not> test linkRegex raw"
proof -
  have nb: "\<not> list_all is_space raw"
    using assms processContent_blank [of raw URL] by auto
  have ns: "\<not> test stickerRegex raw"
    using assms nb processContent_sticker [of raw URL] by auto
  have nt: "\<not> test tiktokRegex raw"
    using assms nb ns processContent_tiktok [of raw URL] by auto
  have nl: "\<not> test linkRegex raw"
    using assms nb ns nt processContent_link [of raw URL]
    by (auto split: if_splits option.splits)
  show ?thesis
    using assms nb ns nt nl processContent_text [of raw URL] by auto
qed

lemma processContent_Empty_content:
  assumes "processContent URL raw = Inr (pc, Empty)"
  shows "pc = []"
proof (cases "list_all is_space raw")
  case True
  then show ?thesis using assms processContent_blank [of raw URL] by auto
next
  case False
  then show ?thesis
    using assms processContent_sticker [of raw URL] processContent_tiktok [of raw URL]
      processContent_link [of raw URL] processContent_text [of raw URL]
    by (cases "test stickerRegex raw"; cases "test tiktokRegex raw"; cases "test linkRegex raw")
       (auto split: if_splits option.splits)
qed

text \<open>
  Claim C3, amended.  Running \<open>processContent\<close> on a content string that contains no
  decorated media URL, no short-video URL and no bare URL returns it unchanged with type
  \<open>text\<close> (or empty with type \<open>empty\<close> when it is blank).  So a second run on the output
  of a \<open>text\<close> or \<open>empty\<close> message changes neither content nor type, and a second run on a
  placeholder such as \<open>[Link: example.com/path]\<close> does not rewrite it but classifies it as
  \<open>text\<close>: the types \<open>link\<close>, \<open>sticker\<close> and \<open>media\<close> of rewritten messages are not
  preserved.
\<close>

theorem processContent_rerun:
  "(\<not> test stickerRegex p \<and> \<not> test tiktokRegex p \<and> \<not> test linkRegex p \<longrightarrow>
      processContent URL p = (if list_all is_space p then Inr ([], Empty) else Inr (p, Text)))
   \<and> (processContent URL raw = Inr (pc, Text) \<longrightarrow> processContent URL pc = Inr (pc, Text))
   \<and> (processContent URL raw = Inr (pc, Empty) \<longrightarrow> processContent URL pc = Inr (pc, Empty))
   \<and> processContent exampleURL (str ''https://example.com/path'')
        = Inr (str ''[Link: example.com/path]'', Link)
   \<and> processContent URL (str ''[Link: example.com/path]'')
        = Inr (str ''[Link: example.com/path]'', Text)"
proof (intro conjI impI)
  assume "\<not> test stickerRegex p \<and> \<not> test tiktokRegex p \<and> \<not> test linkRegex p"
  then show "processContent URL p = (if list_all is_space p then Inr ([], Empty) else Inr (p, Text))"
    using processContent_blank [of p URL] processContent_text [of p URL] by auto
next
  assume "processContent URL raw = Inr (pc, Text)"
  then show "processContent URL pc = Inr (pc, Text)"
    using processContent_Text_unchanged [of URL raw pc] by auto
next
  assume "processContent URL raw = Inr (pc, Empty)"
  then have "pc = []" by (rule processContent_Empty_content)
  then show "processContent URL pc = Inr (pc, Empty)"
    using processContent_blank [of "[]" URL] by simp
next
  show "processContent exampleURL (str ''https://example.com/path'')
        = Inr (str ''[Link: example.com/path]'', Link)"
    by (rule link_example)
next
  show "processContent URL (str ''[Link: example.com/path]'')
        = Inr (str ''[Link: example.com/path]'', Text)"
    using processContent_text [of "str ''[Link: example.com/path]''" URL]
      no_match_placeholders(4,5,6) visible_placeholders(2) by blast
qed

theorem processContent_rerun_witness:
  "\<not> test stickerRegex (str ''hi'') \<and> \<not> test tiktokRegex (str ''hi'') \<and> \<not> test linkRegex (str ''hi'')
   \<and> processContent exampleURL (str ''hi'') = Inr (str ''hi'', Text)
   \<and> processContent exampleURL (str ''hi'') = Inr (str ''hi'', Text)
   \<and> processContent exampleURL [] = Inr ([], Empty)"
proof -
  have n: "\<not> test stickerRegex (str ''hi'')" "\<not> test tiktokRegex (str ''hi'')" "\<not> test linkRegex (str ''hi'')"
    by (simp_all add: stickerRegex_def tiktokRegex_def linkRegex_def matchAt_def str_def Let_def lower_def)
  have v: "\<not> list_all is_space (str ''hi'')"
    by (simp add: str_def is_space_def)
  have first: "processContent exampleURL (str ''hi'') = Inr (str ''hi'', Text)"
    using processContent_rerun [of "str ''hi''" exampleURL] n v by simp
  have second: "processContent exampleURL (str ''hi'') = Inr (str ''hi'', Text)"
    using processContent_rerun [of "str ''hi''" exampleURL "str ''hi''" "str ''hi''"] first by blast
  have e0: "processContent exampleURL [] = Inr ([], Empty)"
    using processContent_blank [of "[]" exampleURL] by simp
  have "processContent exampleURL [] = Inr ([], Empty)"
    using processContent_rerun [of "[]" exampleURL "[]" "[]"] e0 by blast
  then show ?thesis
    using n first second by blast
qed

section \<open>Parser: ingestion\<close>

text \<open>
  Reading the property \<open>k\<close> of a conversation element: \<open>None\<close> is \<open>undefined\<close>, the value
  of a missing property and of every property of a number, string, boolean or array read
  here.  Reading a property of \<open>null\<close> throws; \<open>validateMessage\<close> models that.
\<close>

definition field :: "json \<Rightarrow> string \<Rightarrow> json option" where
  "field message k = (case message of JObj props \<Rightarrow> map_of props (str k) | _ \<Rightarrow> None)"

text \<open>Truthiness of a value of the host.\<close>

definition truthy :: "json option \<Rightarrow> bool" where
  "truthy v =
     (case v of
        None \<Rightarrow> False
      | Some JNull \<Rightarrow> False
      | Some (JBool b) \<Rightarrow> b
      | Some (JNum n) \<Rightarrow> n \<noteq> 0
      | Some (JStr s) \<Rightarrow> s \<noteq> []
      | Some (JArr _) \<Rightarrow> True
      | Some (JObj _) \<Rightarrow> True)"

text \<open>\<open>Parser.validateMessage\<close> (parser.js, lines 109-114).\<close>

definition validateMessage :: "json \<Rightarrow> error + bool" where
  "validateMessage message =
     (if message = JNull then Inl TypeError
      else if \<not> truthy (field message ''Date'') \<or> \<not> truthy (field message ''From'')
              \<or> field message ''Content'' = None
           then Inr False
           else Inr True)"

text \<open>\<open>s.replace(pattern, replacement)\<close> with a string pattern: the first occurrence.\<close>

fun replaceFirst :: "jsstring \<Rightarrow> jsstring \<Rightarrow> jsstring \<Rightarrow> jsstring" where
  "replaceFirst pat rep [] = (if pat = [] then rep else [])"
| "replaceFirst pat rep (c # cs) =
     (if take (length pat) (c # cs) = pat then rep @ drop (length pat) (c # cs)
      else c # replaceFirst pat rep cs)"

text \<open>
  \<open>Parser.parseMessage\<close> (parser.js, lines 121-143).  \<open>convoHelper\<close> is
  \<open>window.convoHelper\<close>: \<open>None\<close> when it is undefined (then reading its
  \<open>timezoneOffset\<close> throws), else its \<open>timezoneOffset\<close>, if any.  \<open>Date_parse\<close> is the
  host's parser of date strings.  A \<open>Date\<close> or \<open>Content\<close> that is not a string has no
  method \<open>replace\<close>, so calling it throws.
\<close>

definition parseMessage ::
  "int option option \<Rightarrow> (jsstring \<Rightarrow> int) \<Rightarrow> (jsstring \<Rightarrow> (jsstring \<times> jsstring) option)
     \<Rightarrow> json \<Rightarrow> error + message" where
  "parseMessage convoHelper Date_parse URL message =
     (case convoHelper of
        None \<Rightarrow> Inl TypeError
      | Some tz \<Rightarrow>
          (let timezoneOffset = (case tz of None \<Rightarrow> 0 | Some k \<Rightarrow> k)
           in case field message ''Date'' of
                Some (JStr d) \<Rightarrow>
                  (let date0 = Date_parse (replaceFirst (str '' '') (str ''T'') d);
                       date1 = date0 + timezoneOffset * 3600000
                   in case field message ''Content'' of
                        Some (JStr c) \<Rightarrow>
                          (case processContent URL c of
                             Inl e \<Rightarrow> Inl e
                           | Inr (processedContent, messageType) \<Rightarrow>
                               Inr (messageOf date1
                                      (case field message ''From'' of None \<Rightarrow> JNull | Some f \<Rightarrow> f)
                                      processedContent messageType))
                      | _ \<Rightarrow> Inl TypeError)
              | _ \<Rightarrow> Inl TypeError))"

text \<open>The inner loop of \<open>extractConversations\<close> (parser.js, lines 89-94).\<close>

fun validMessagesOf ::
  "(json \<Rightarrow> error + message) \<Rightarrow> json list \<Rightarrow> error + message list" where
  "validMessagesOf parse [] = Inr []"
| "validMessagesOf parse (msg # msgs) =
     (case validateMessage msg of
        Inl e \<Rightarrow> Inl e
      | Inr ok \<Rightarrow>
          if ok
          then (case parse msg of
                  Inl e \<Rightarrow> Inl e
                | Inr m \<Rightarrow> map_sum id ((#) m) (validMessagesOf parse msgs))
          else validMessagesOf parse msgs)"

definition personNameOf :: "jsstring \<Rightarrow> jsstring" where
  "personNameOf key = replaceFirst (str '':'') [] (replaceFirst (str ''Chat History with '') [] key)"

text \<open>
  The object \<open>conversations\<close>: its own properties in insertion order and, when an
  assignment to the key \<open>__proto__\<close> has replaced its prototype by an array of messages,
  that array.  Such an assignment adds no property: the accessor \<open>__proto__\<close> of
  \<open>Object.prototype\<close> sets the prototype instead.
\<close>

record conversationsObj =
  own :: "(jsstring \<times> message list) list"
  proto :: "message list option"

definition setConversation ::
  "jsstring \<Rightarrow> message list \<Rightarrow> conversationsObj \<Rightarrow> conversationsObj" where
  "setConversation personName validMessages conversations =
     (if personName = str ''__proto__'' then conversations\<lparr> proto := Some validMessages \<rparr>
      else conversations\<lparr> own := AList.update personName validMessages (own conversations) \<rparr>)"

definition emptyObj :: conversationsObj where
  "emptyObj = \<lparr> own = [], proto = None \<rparr>"

text \<open>
  \<open>Parser.extractConversations\<close> (parser.js, lines 79-102), applied to the properties of
  \<open>ChatHistory\<close>, each of which \<open>validateStructure\<close> has found to hold an array.
\<close>

fun extractLoop ::
  "(json \<Rightarrow> error + message) \<Rightarrow> (jsstring \<times> json list) list \<Rightarrow> conversationsObj
     \<Rightarrow> error + conversationsObj" where
  "extractLoop parse [] conversations = Inr conversations"
| "extractLoop parse ((key, messages) # rest) conversations =
     (let personName = personNameOf key
      in case validMessagesOf parse messages of
           Inl e \<Rightarrow> Inl e
         | Inr validMessages \<Rightarrow>
             extractLoop parse rest
               (if length validMessages > 0
                then setConversation personName validMessages conversations
                else conversations))"

definition extractConversations ::
  "int option option \<Rightarrow> (jsstring \<Rightarrow> int) \<Rightarrow> (jsstring \<Rightarrow> (jsstring \<times> jsstring) option)
     \<Rightarrow> (jsstring \<times> json list) list \<Rightarrow> error + conversationsObj" where
  "extractConversations convoHelper Date_parse URL chatHistory =
     extractLoop (parseMessage convoHelper Date_parse URL) chatHistory emptyObj"

text \<open>
  The specification: an element is well formed when it carries a non-empty string \<open>Date\<close>,
  a truthy \<open>From\<close> and a defined \<open>Content\<close>.  An element is well typed when it is not
  \<open>null\<close> and its \<open>Date\<close> and \<open>Content\<close>, if the validation accepts them, are strings.
\<close>

definition wellFormedElement :: "json \<Rightarrow> bool" where
  "wellFormedElement m \<longleftrightarrow>
     (\<exists>d. field m ''Date'' = Some (JStr d) \<and> d \<noteq> [])
     \<and> truthy (field m ''From'')
     \<and> field m ''Content'' \<noteq> None"












text \<open>A date parser for the examples: it reads every string as 15 January 2024, noon.\<close>

definition exampleDate :: "jsstring \<Rightarrow> int" where
  "exampleDate s = Date_ymd 2024 0 15 + 12 * 3600000"

definition element :: "(string \<times> json) list \<Rightarrow> json" where
  "element props = JObj (map (\<lambda>(k, v). (str k, v)) props)"

text \<open>
  Claim C6.  An element that lacks a non-empty string \<open>Date\<close> is to be dropped without
  failing.  The code does not do so for an element whose \<open>Date\<close> is the number 5: unlike a
  missing, empty, \<open>null\<close> or zero \<open>Date\<close>, which \<open>validateMessage\<close> rejects, this value
  passes its test of truthiness (parser.js, line 110) and reaches the unguarded
  \<open>message.Date.replace\<close> of \<open>parseMessage\<close> (line 124), which throws; the ingestion of
  the whole upload fails with a \<open>TypeError\<close>.
\<close>

theorem extractConversations_numeric_date_throws:
  "\<not> wellFormedElement (element [(''Date'', JNum 5), (''From'', JStr (str ''bob'')),
                                 (''Content'', JStr (str ''hi''))])
   \<and> extractConversations (Some None) exampleDate exampleURL
        [(str ''Chat History with bob:'',
          [element [(''Date'', JNum 5), (''From'', JStr (str ''bob'')),
                    (''Content'', JStr (str ''hi''))]])]
      = Inl TypeError"
  by (simp add: extractConversations_def validateMessage_def parseMessage_def field_def truthy_def
      wellFormedElement_def element_def str_def)


lemma hi_text: "processContent URL (str ''hi'') = Inr (str ''hi'', Text)"
proof -
  have "\<not> test stickerRegex (str ''hi'')" "\<not> test tiktokRegex (str ''hi'')" "\<not> test linkRegex (str ''hi'')"
    by (simp_all add: stickerRegex_def tiktokRegex_def linkRegex_def matchAt_def str_def Let_def lower_def)
  moreover have "\<not> list_all is_space (str ''hi'')"
    by (simp add: str_def is_space_def)
  ultimately show ?thesis
    using processContent_text by blast
qed

lemma hi_text_units: "processContent URL [104, 105] = Inr ([104, 105], Text)"
  using hi_text [of URL] by (simp add: str_def)




section \<open>Processor: processing the conversations\<close>

record processedData =
  p_messages :: "message list"
  p_totalMessages :: nat
  weekClusters :: "(jsstring \<times> weekCluster) list"
  monthGroups :: "(jsstring \<times> monthGroup) list"
  firstMessage :: "message option"
  lastMessage :: "message option"

definition byTimestamp :: "message \<Rightarrow> message \<Rightarrow> int" where
  "byTimestamp a b = timestamp a - timestamp b"

text \<open>The body of the loop of \<open>processConversations\<close> (part_000, lines 40-58) after the sort.\<close>

definition processedOf :: "message list \<Rightarrow> processedData" where
  "processedOf messages =
     (let weekClusters = clusterByWeeks messages;
          monthGroups = groupIntoMonths weekClusters
      in \<lparr> p_messages = messages, p_totalMessages = length messages,
           weekClusters = weekClusters, monthGroups = monthGroups,
           firstMessage = (case messages of [] \<Rightarrow> None | m # _ \<Rightarrow> Some m),
           lastMessage = (if messages = [] then None else Some (last messages)) \<rparr>)"

text \<open>
  \<open>Processor.processConversations\<close> (part_000, lines 36-62).  The loop \<open>for (person in
  conversations)\<close> visits the own properties and then the enumerable properties of the
  prototype that no own property hides.  When the prototype is an array of messages these
  are its indices: \<open>conversations[person]\<close> is then a message, which has no method
  \<open>sort\<close>, and the call throws.  The arrays of the own properties are sorted in place, so
  the object \<open>conversations\<close> changes too; the function returns it with the outcome.
  (The host visits own keys that are array indices before the others; the model keeps the
  insertion order, which plays no role below.)
\<close>

definition inheritedKeys :: "conversationsObj \<Rightarrow> jsstring list" where
  "inheritedKeys conversations =
     (case proto conversations of
        None \<Rightarrow> []
      | Some arr \<Rightarrow>
          filter (\<lambda>k. k \<notin> set (map fst (own conversations)))
                 (map (\<lambda>i. String_of (int i)) [0..<length arr]))"

definition processConversations ::
  "conversationsObj \<Rightarrow> conversationsObj \<times> (error + (jsstring \<times> processedData) list)" where
  "processConversations conversations =
     (let sortedOwn = map (\<lambda>(person, messages). (person, sortBy byTimestamp messages))
                          (own conversations);
          processed = map (\<lambda>(person, messages). (person, processedOf messages)) sortedOwn
      in (conversations\<lparr> own := sortedOwn \<rparr>,
          if inheritedKeys conversations = [] then Inr processed else Inl TypeError))"

section \<open>Application: the processing pipeline\<close>

text \<open>
  \<open>Parser.validateStructure\<close> (parser.js, lines 33-72).  Reading a property of \<open>null\<close>
  throws.  A \<open>ChatHistory\<close> that is not an object has no keys or has index keys, which do
  not start with \<open>Chat History with\<close>.
\<close>

definition getProp :: "json \<Rightarrow> string \<Rightarrow> error + json option" where
  "getProp v k = (if v = JNull then Inl TypeError else Inr (field v k))"

definition startsWith :: "jsstring \<Rightarrow> jsstring \<Rightarrow> bool" where
  "startsWith s t \<longleftrightarrow> take (length t) s = t"

definition isArray :: "json \<Rightarrow> bool" where
  "isArray v = (case v of JArr _ \<Rightarrow> True | _ \<Rightarrow> False)"

definition validChatHistory :: "json \<Rightarrow> bool" where
  "validChatHistory chatHistory =
     (case chatHistory of
        JObj props \<Rightarrow>
          length props \<noteq> 0 \<and>
          list_all (\<lambda>(key, v). startsWith key (str ''Chat History with '') \<and> endsWith key (str '':'')
                               \<and> isArray v) props
      | _ \<Rightarrow> False)"

definition validateStructure :: "json \<Rightarrow> error + bool" where
  "validateStructure data =
     (case getProp data ''Direct Message'' of
        Inl e \<Rightarrow> Inl e
      | Inr None \<Rightarrow> Inr False
      | Inr (Some dm) \<Rightarrow>
          if \<not> truthy (Some dm) then Inr False
          else (case field dm ''Direct Messages'' of
                  None \<Rightarrow> Inr False
                | Some dms \<Rightarrow>
                    if \<not> truthy (Some dms) then Inr False
                    else (case field dms ''ChatHistory'' of
                            None \<Rightarrow> Inr False
                          | Some chatHistory \<Rightarrow>
                              if \<not> truthy (Some chatHistory) then Inr False
                              else Inr (validChatHistory chatHistory))))"

text \<open>
  \<open>Parser.parseJSON\<close> (parser.js, lines 12-26).  \<open>JSON_parse\<close> is the host's parser,
  \<open>None\<close> where it throws.  Whatever goes wrong, the function throws its own error.  The
  raw data is \<open>None\<close> when nothing was uploaded; the host then parses the text \<open>null\<close>.
\<close>

definition parseJSON :: "(jsstring \<Rightarrow> json option) \<Rightarrow> jsstring option \<Rightarrow> error + json" where
  "parseJSON JSON_parse jsonString =
     (case (case jsonString of None \<Rightarrow> Some JNull | Some s \<Rightarrow> JSON_parse s) of
        None \<Rightarrow> Inl FailedToParseJSON
      | Some data \<Rightarrow>
          (case validateStructure data of
             Inl e \<Rightarrow> Inl FailedToParseJSON
           | Inr ok \<Rightarrow> if ok then Inr data else Inl FailedToParseJSON))"

text \<open>The properties of \<open>data['Direct Message']['Direct Messages']['ChatHistory']\<close>.\<close>

definition chatHistoryOf :: "json \<Rightarrow> (jsstring \<times> json list) list" where
  "chatHistoryOf data =
     (case Option.bind (Option.bind (field data ''Direct Message'') (\<lambda>dm. field dm ''Direct Messages''))
                       (\<lambda>dms. field dms ''ChatHistory'') of
        Some (JObj props) \<Rightarrow> map (\<lambda>(key, v). (key, case v of JArr xs \<Rightarrow> xs | _ \<Rightarrow> [])) props
      | _ \<Rightarrow> [])"

text \<open>
  The session state \<open>window.appData\<close> (part_003, lines 7-14); \<open>None\<close> is \<open>null\<close> or
  \<open>undefined\<close>.  The overview statistics are values of the types \<open>'o\<close> and \<open>'e\<close>.
\<close>

record ('o, 'e) appData =
  rawData :: "jsstring option"
  conversations :: "conversationsObj option"
  processed :: "(jsstring \<times> processedData) list option"
  overviewStats :: "'o option"
  enhancedOverviewStats :: "'e option"
  userIdentity :: "jsstring option"
  allSenders :: "jsstring list"

text \<open>
  What the pipeline takes from its surroundings: the host's parsers, \<open>window.convoHelper\<close>,
  and the two statistics generators \<open>Stats.generateOverviewStats\<close> and
  \<open>StatsGeneral.generateEnhancedOverviewStats\<close>, functions of the processed data that may
  throw.
\<close>

record ('o, 'e) surroundings =
  JSON_parse :: "jsstring \<Rightarrow> json option"
  convoHelper :: "int option option"
  Date_parse :: "jsstring \<Rightarrow> int"
  URL :: "jsstring \<Rightarrow> (jsstring \<times> jsstring) option"
  generateOverviewStats :: "(jsstring \<times> processedData) list \<Rightarrow> error + 'o"
  generateEnhancedOverviewStats :: "(jsstring \<times> processedData) list \<Rightarrow> error + 'e"

text \<open>
  \<open>processData\<close> (part_003, lines 315-376): the session state after the run, and the
  error caught by its \<open>catch\<close> block, if any.  The calls into the user interface are left
  out.
\<close>

definition processData ::
  "('o, 'e) surroundings \<Rightarrow> ('o, 'e) appData \<Rightarrow> ('o, 'e) appData \<times> error option" where
  "processData env app =
     (if userIdentity app = None \<or> userIdentity app = Some [] then (app, None)
      else
        case parseJSON (JSON_parse env) (rawData app) of
          Inl e \<Rightarrow> (app, Some e)
        | Inr data \<Rightarrow>
        (case extractConversations (convoHelper env) (Date_parse env) (URL env) (chatHistoryOf data) of
          Inl e \<Rightarrow> (app, Some e)
        | Inr extracted \<Rightarrow>
        (case processConversations extracted of
          (conv, Inl e) \<Rightarrow> (app\<lparr> conversations := Some conv \<rparr>, Some e)
        | (conv, Inr p) \<Rightarrow>
        (case generateOverviewStats env p of
          Inl e \<Rightarrow> (app\<lparr> conversations := Some conv, processed := Some p \<rparr>, Some e)
        | Inr os \<Rightarrow>
        (case generateEnhancedOverviewStats env p of
          Inl e \<Rightarrow> (app\<lparr> conversations := Some conv, processed := Some p,
                          overviewStats := Some os \<rparr>, Some e)
        | Inr es \<Rightarrow> (app\<lparr> conversations := Some conv, processed := Some p,
                          overviewStats := Some os, enhancedOverviewStats := Some es \<rparr>,
                     None))))))"

definition exampleText :: jsstring where
  \<open>exampleText = str ''{"Direct Message":{"Direct Messages":{"ChatHistory":{"Chat History with __proto__:":[{"Date":"2024-01-15 12:00:00","From":"bob","Content":"hi"}]}}}}''\<close>

definition exampleData :: json where
  "exampleData =
     element [(''Direct Message'', element [(''Direct Messages'', element [(''ChatHistory'',
       JObj [(str ''Chat History with __proto__:'',
              JArr [element [(''Date'', JStr (str ''2024-01-15 12:00:00'')),
                             (''From'', JStr (str ''bob'')),
                             (''Content'', JStr (str ''hi''))]])])])])]"

definition truncatedText :: jsstring where
  \<open>truncatedText = str ''{"Direct Message":{"Direct Messages":{}}}''\<close>

definition truncatedData :: json where
  "truncatedData = element [(''Direct Message'', element [(''Direct Messages'', element [])])]"

text \<open>Surroundings for the examples: the JSON parser knows the two example texts.\<close>

definition exampleEnv :: "(unit, unit) surroundings" where
  "exampleEnv =
     \<lparr> JSON_parse = (\<lambda>s. if s = exampleText then Some exampleData
                          else if s = truncatedText then Some truncatedData else None),
       convoHelper = Some None,
       Date_parse = exampleDate,
       URL = exampleURL,
       generateOverviewStats = (\<lambda>p. Inr ()),
       generateEnhancedOverviewStats = (\<lambda>p. Inr ()) \<rparr>"

text \<open>The session state after the upload of a text, before the run.\<close>

definition uploaded :: "jsstring \<Rightarrow> (unit, unit) appData" where
  "uploaded text =
     \<lparr> rawData = Some text, conversations = None, processed = None, overviewStats = None,
       enhancedOverviewStats = None, userIdentity = Some (str ''bob''),
       allSenders = [str ''bob''] \<rparr>"

lemma texts_differ: "exampleText \<noteq> truncatedText"
  by (simp add: exampleText_def truncatedText_def str_def)

lemma example_parse: "parseJSON (JSON_parse exampleEnv) (Some exampleText) = Inr exampleData"
  by (simp add: parseJSON_def exampleEnv_def validateStructure_def getProp_def exampleData_def
      element_def field_def truthy_def validChatHistory_def startsWith_def endsWith_def
      isArray_def str_def)

lemma example_extract:
  "extractConversations (Some None) exampleDate exampleURL (chatHistoryOf exampleData)
     = Inr \<lparr> own = [],
             proto = Some [messageOf (Date_ymd 2024 0 15 + 12 * 3600000) (JStr (str ''bob''))
                             (str ''hi'') Text] \<rparr>"
  using hi_text_units [of exampleURL]
  by (simp add: extractConversations_def chatHistoryOf_def exampleData_def element_def field_def
      validateMessage_def truthy_def parseMessage_def exampleDate_def setConversation_def
      personNameOf_def emptyObj_def str_def)

lemma example_process:
  "processConversations \<lparr> own = [], proto = Some [m] \<rparr>
     = (\<lparr> own = [], proto = Some [m] \<rparr>, Inl TypeError)"
  by (simp add: processConversations_def inheritedKeys_def String_of_def digits.simps)

text \<open>
  Claim C7, as stated, fails.  The upload holds one conversation, named \<open>__proto__\<close>.
  Parsing and extraction succeed and the extracted conversations are stored in the session;
  then \<open>processConversations\<close> throws.  After the failed run the field \<open>conversations\<close>,
  which was \<open>null\<close> before, holds the extracted object.
\<close>

theorem processData_counterexample:
  "processData exampleEnv (uploaded exampleText)
     = ((uploaded exampleText)
          \<lparr> conversations :=
              Some \<lparr> own = [],
                     proto = Some [messageOf (Date_ymd 2024 0 15 + 12 * 3600000)
                                     (JStr (str ''bob'')) (str ''hi'') Text] \<rparr> \<rparr>,
        Some TypeError)
   \<and> conversations (uploaded exampleText) = None"
proof -
  have e: "convoHelper exampleEnv = Some None" "Date_parse exampleEnv = exampleDate"
      "URL exampleEnv = exampleURL"
    by (simp_all add: exampleEnv_def)
  have u: "userIdentity (uploaded exampleText) = Some (str ''bob'')"
      "rawData (uploaded exampleText) = Some exampleText"
      "conversations (uploaded exampleText) = None"
    by (simp_all add: uploaded_def)
  have b: "Some (str ''bob'') \<noteq> Some []"
    by (simp add: str_def)
  have "processData exampleEnv (uploaded exampleText)
     = ((uploaded exampleText)
          \<lparr> conversations :=
              Some \<lparr> own = [],
                     proto = Some [messageOf (Date_ymd 2024 0 15 + 12 * 3600000)
                                     (JStr (str ''bob'')) (str ''hi'') Text] \<rparr> \<rparr>,
        Some TypeError)"
    using b by (simp add: processData_def e u example_parse example_extract example_process)
  then show ?thesis
    using u(3) by simp
qed

text \<open>
  Claim C7, amended.  A run of the pipeline that fails while parsing or while extracting
  leaves the session state as it was.  A run that fails later does not: when clustering and
  grouping fail, \<open>conversations\<close> already holds the newly extracted conversations; when the
  overview statistics fail, \<open>conversations\<close> and \<open>processed\<close> hold the new values; when
  the enhanced statistics fail, \<open>overviewStats\<close> does too.  Nothing is rolled back.  A run
  without a selected identity does nothing.
\<close>

theorem processData_failure_state:
  "(userIdentity app = None \<or> userIdentity app = Some [] \<longrightarrow> processData env app = (app, None))
   \<and> (userIdentity app \<noteq> None \<and> userIdentity app \<noteq> Some [] \<longrightarrow>
       (\<forall>e. parseJSON (JSON_parse env) (rawData app) = Inl e
             \<longrightarrow> processData env app = (app, Some e))
     \<and> (\<forall>data. parseJSON (JSON_parse env) (rawData app) = Inr data \<longrightarrow>
         (\<forall>e. extractConversations (convoHelper env) (Date_parse env) (URL env) (chatHistoryOf data)
                 = Inl e
               \<longrightarrow> processData env app = (app, Some e))
       \<and> (\<forall>extracted conv.
             extractConversations (convoHelper env) (Date_parse env) (URL env) (chatHistoryOf data)
               = Inr extracted \<longrightarrow>
             (\<forall>e. processConversations extracted = (conv, Inl e)
                   \<longrightarrow> processData env app = (app\<lparr> conversations := Some conv \<rparr>, Some e))
           \<and> (\<forall>p. processConversations extracted = (conv, Inr p) \<longrightarrow>
                 (\<forall>e. generateOverviewStats env p = Inl e
                       \<longrightarrow> processData env app
                            = (app\<lparr> conversations := Some conv, processed := Some p \<rparr>, Some e))
               \<and> (\<forall>os e. generateOverviewStats env p = Inr os
                            \<and> generateEnhancedOverviewStats env p = Inl e
                       \<longrightarrow> processData env app
                            = (app\<lparr> conversations := Some conv, processed := Some p,
                                    overviewStats := Some os \<rparr>, Some e))
               \<and> (\<forall>os es. generateOverviewStats env p = Inr os
                            \<and> generateEnhancedOverviewStats env p = Inr es
                       \<longrightarrow> processData env app
                            = (app\<lparr> conversations := Some conv, processed := Some p,
                                    overviewStats := Some os,
                                    enhancedOverviewStats := Some es \<rparr>, None))))))"
  by (simp add: processData_def)

theorem processData_failure_state_witness:
  "userIdentity (uploaded truncatedText) \<noteq> None \<and> userIdentity (uploaded truncatedText) \<noteq> Some []
   \<and> parseJSON (JSON_parse exampleEnv) (rawData (uploaded truncatedText)) = Inl FailedToParseJSON
   \<and> processData exampleEnv (uploaded truncatedText) = (uploaded truncatedText, Some FailedToParseJSON)"
proof -
  have u: "userIdentity (uploaded truncatedText) \<noteq> None \<and> userIdentity (uploaded truncatedText) \<noteq> Some []"
    by (simp add: uploaded_def str_def)
  have p: "parseJSON (JSON_parse exampleEnv) (rawData (uploaded truncatedText)) = Inl FailedToParseJSON"
    using texts_differ
    by (simp add: uploaded_def parseJSON_def exampleEnv_def validateStructure_def getProp_def
        truncatedData_def element_def field_def truthy_def str_def)
  show ?thesis
    using processData_failure_state [of "uploaded truncatedText" exampleEnv] u p by blast
qed

section \<open>Exporter\<close>

text \<open>\<open>Parser.formatDate\<close> and \<open>Parser.formatDateRange\<close> (parser.js, lines 250-268).\<close>

definition formatDate :: "int \<Rightarrow> jsstring" where
  "formatDate d =
     (case getMonthName (getMonth d) of None \<Rightarrow> str ''undefined'' | Some name \<Rightarrow> name)
     @ str '' '' @ String_of (getDate d) @ str '', '' @ String_of (getFullYear d)"

definition formatDateRange :: "int \<Rightarrow> int \<Rightarrow> jsstring" where
  "formatDateRange rangeStart rangeEnd =
     (if getFullYear rangeStart = getFullYear rangeEnd \<and> getMonth rangeStart = getMonth rangeEnd
      then formatDate rangeStart @ str '' - '' @ String_of (getDate rangeEnd)
      else formatDate rangeStart @ str '' - '' @ formatDate rangeEnd)"

text \<open>
  The report that \<open>generateWeekMarkdown\<close> writes, by its parts and in their order: the
  header (partner, week, year, number of messages, date range), the messages under one
  heading per date, and the statistics (number of messages, messages per sender, messages
  per type, number of days over which the average is taken).  The rendering of the parts
  as text, with \<open>toFixed\<close> and \<open>toLocaleDateString\<close>, is the host's.
\<close>

record report =
  partner :: jsstring
  weekNum :: int
  reportYear :: int
  headerTotal :: nat
  headerRange :: jsstring
  byDate :: "(jsstring \<times> message list) list"
  footerTotal :: nat
  bySender :: "(json \<times> nat) list"
  byType :: typeCounts
  days :: int

text \<open>
  The grouping loops of \<open>generateWeekMarkdown\<close> (part_008, lines 47-54 and 72-75).  The
  keys of \<open>byDate\<close> are formatted dates, which are no array indices, so the loop over them
  follows the order of insertion.  The senders are the keys of \<open>bySender\<close> as they are; a
  sender that is no string, or is named like a property of \<open>Object.prototype\<close>, is outside
  the model.
\<close>

definition addByDate :: "message \<Rightarrow> (jsstring \<times> message list) list \<Rightarrow> (jsstring \<times> message list) list"
  where
  "addByDate msg groups =
     (let dateKey = formatDate (date msg);
          groups1 = (case map_of groups dateKey of
                       None \<Rightarrow> AList.update dateKey [] groups
                     | Some _ \<Rightarrow> groups)
      in case map_of groups1 dateKey of
           None \<Rightarrow> groups1
         | Some g \<Rightarrow> AList.update dateKey (g @ [msg]) groups1)"

definition addBySender :: "message \<Rightarrow> (json \<times> nat) list \<Rightarrow> (json \<times> nat) list" where
  "addBySender msg counts =
     AList.update (sender msg)
       ((case map_of counts (sender msg) of None \<Rightarrow> 0 | Some n \<Rightarrow> n) + 1) counts"

text \<open>
  \<open>Exporter.generateWeekMarkdown\<close> (part_008, lines 36-103).  Reading \<open>dateRange.start\<close>
  throws when the range is still \<open>null\<close>.
\<close>

definition generateWeekMarkdown :: "jsstring \<Rightarrow> weekCluster \<Rightarrow> error + report" where
  "generateWeekMarkdown personName wk =
     (case dateRange wk of
        None \<Rightarrow> Inl TypeError
      | Some (rangeStart, rangeEnd) \<Rightarrow>
          Inr \<lparr> partner = personName,
                weekNum = wweek wk,
                reportYear = wyear wk,
                headerTotal = length (wmessages wk),
                headerRange = formatDateRange rangeStart rangeEnd,
                byDate = fold addByDate (wmessages wk) [],
                footerTotal = length (wmessages wk),
                bySender = fold addBySender (wmessages wk) [],
                byType = fold countType (wmessages wk)
                           \<lparr> text_n = 0, link_n = 0, media_n = 0, sticker_n = 0, empty_n = 0 \<rparr>,
                days = (let d = ceil_div (rangeEnd - rangeStart) (1000 * 60 * 60 * 24)
                        in if d = 0 then 1 else d) \<rparr>)"

text \<open>
  The names of the properties of \<open>Object.prototype\<close>.  The week clusters are a plain
  object, so \<open>weekClusters[weekKey]\<close> for such a name that is no key of a week finds
  the inherited property: a function or the prototype itself, never falsy.
\<close>

definition objectPrototypeNames :: "jsstring list" where
  "objectPrototypeNames =
     map str [''constructor'', ''__proto__'', ''hasOwnProperty'', ''isPrototypeOf'',
              ''propertyIsEnumerable'', ''toLocaleString'', ''toString'', ''valueOf'',
              ''__defineGetter__'', ''__defineSetter__'', ''__lookupGetter__'',
              ''__lookupSetter__'']"

text \<open>
  \<open>Exporter.exportToZip\<close> (part_008, lines 14-28).  The archive is the list of its files,
  name and content; \<open>zip.file(name, content)\<close> replaces a file of the same name or adds
  one at the end.  An inherited property passes the test \<open>!week\<close>, has no \<open>messages\<close>,
  and \<open>generateWeekMarkdown\<close> throws at \<open>messages.length\<close>.
\<close>

fun exportLoop ::
  "jsstring \<Rightarrow> (jsstring \<times> weekCluster) list \<Rightarrow> jsstring list \<Rightarrow> (jsstring \<times> report) list
     \<Rightarrow> error + (jsstring \<times> report) list" where
  "exportLoop personName clusters [] archive = Inr archive"
| "exportLoop personName clusters (weekKey # rest) archive =
     (case map_of clusters weekKey of
        None \<Rightarrow> if weekKey \<in> set objectPrototypeNames then Inl TypeError
                else exportLoop personName clusters rest archive
      | Some wk \<Rightarrow>
          (case generateWeekMarkdown personName wk of
             Inl e \<Rightarrow> Inl e
           | Inr markdown \<Rightarrow>
               (let filename = personName @ str ''_'' @ weekKey @ str ''.md''
                in exportLoop personName clusters rest (AList.update filename markdown archive))))"

definition exportToZip ::
  "jsstring \<Rightarrow> processedData \<Rightarrow> jsstring list \<Rightarrow> error + (jsstring \<times> report) list" where
  "exportToZip personName processedData selectedWeeks =
     exportLoop personName (weekClusters processedData) selectedWeeks []"

section \<open>Properties of the groupings\<close>

lemma update_entries:
  "distinct (map fst al) \<Longrightarrow> (h, g) \<in> set (AList.update k v al)
     \<Longrightarrow> (h = k \<and> g = v) \<or> (h \<noteq> k \<and> (h, g) \<in> set al)"
  by (induction al) (auto split: if_splits simp: image_iff)

lemma update_keys: "fst ` set (AList.update k v al) = insert k (fst ` set al)"
  by (induction al) auto

lemma map_of_None_keys: "map_of al k = None \<longleftrightarrow> k \<notin> fst ` set al"
  by (simp add: map_of_eq_None_iff)

lemma map_of_Some_keys: "(\<exists>v. map_of al k = Some v) \<longleftrightarrow> k \<in> fst ` set al"
  using map_of_None_keys [of al k] by (cases "map_of al k") auto

text \<open>
  The state of a grouping loop after the messages \<open>seen\<close>: one entry per key that occurred,
  holding the messages with that key in their order.
\<close>

definition grouped :: "(message \<Rightarrow> jsstring) \<Rightarrow> message list \<Rightarrow> (jsstring \<times> message list) list \<Rightarrow> bool"
  where
  "grouped key seen groups \<longleftrightarrow>
     distinct (map fst groups)
     \<and> (\<forall>(h, g) \<in> set groups. g \<noteq> [] \<and> g = filter (\<lambda>m. key m = h) seen)
     \<and> (\<forall>m \<in> set seen. key m \<in> fst ` set groups)"

lemma grouped_step:
  assumes "grouped key seen groups"
    and step: "groups' = (case map_of groups (key m) of
                            None \<Rightarrow> AList.update (key m) [m] groups
                          | Some g \<Rightarrow> AList.update (key m) (g @ [m]) groups)"
  shows "grouped key (seen @ [m]) groups'"
proof -
  have d: "distinct (map fst groups)"
    and e: "\<And>h g. (h, g) \<in> set groups \<Longrightarrow> g \<noteq> [] \<and> g = filter (\<lambda>m. key m = h) seen"
    and c: "\<And>x. x \<in> set seen \<Longrightarrow> key x \<in> fst ` set groups"
    using assms(1) by (auto simp: grouped_def)
  obtain v where g': "groups' = AList.update (key m) v groups"
    and v: "v = filter (\<lambda>x. key x = key m) seen @ [m]"
  proof (cases "map_of groups (key m)")
    case None
    then have "key m \<notin> fst ` set groups"
      by (simp add: map_of_None_keys)
    then have "\<forall>x \<in> set seen. key x \<noteq> key m"
      using c by metis
    then have "filter (\<lambda>x. key x = key m) seen = []"
      by (simp add: filter_empty_conv)
    then show ?thesis using that step None by simp
  next
    case (Some g)
    then have "(key m, g) \<in> set groups" by (rule map_of_SomeD)
    then have "g = filter (\<lambda>x. key x = key m) seen" using e by blast
    then show ?thesis using that step Some by simp
  qed
  have d': "distinct (map fst groups')"
    unfolding g' using d by (rule distinct_update)
  have e': "\<And>h g. (h, g) \<in> set groups' \<Longrightarrow> g \<noteq> [] \<and> g = filter (\<lambda>x. key x = h) (seen @ [m])"
  proof -
    fix h g assume "(h, g) \<in> set groups'"
    then have "(h = key m \<and> g = v) \<or> (h \<noteq> key m \<and> (h, g) \<in> set groups)"
      unfolding g' using update_entries [OF d] by blast
    then show "g \<noteq> [] \<and> g = filter (\<lambda>x. key x = h) (seen @ [m])"
      using v e by auto
  qed
  have c': "\<And>x. x \<in> set (seen @ [m]) \<Longrightarrow> key x \<in> fst ` set groups'"
    unfolding g' update_keys using c by auto
  show ?thesis
    unfolding grouped_def using d' e' c' by blast
qed

lemma addByDate_step:
  "addByDate m groups = (case map_of groups (formatDate (date m)) of
                            None \<Rightarrow> AList.update (formatDate (date m)) [m] groups
                          | Some g \<Rightarrow> AList.update (formatDate (date m)) (g @ [m]) groups)"
  by (cases "map_of groups (formatDate (date m))")
     (simp_all add: addByDate_def Let_def update_conv' update_last)

lemma fold_addByDate_grouped:
  "grouped (\<lambda>m. formatDate (date m)) seen groups
     \<Longrightarrow> grouped (\<lambda>m. formatDate (date m)) (seen @ ms) (fold addByDate ms groups)"
proof (induction ms arbitrary: seen groups)
  case Nil
  then show ?case by simp
next
  case (Cons m ms)
  have "grouped (\<lambda>m. formatDate (date m)) (seen @ [m]) (addByDate m groups)"
    using grouped_step [OF Cons.prems addByDate_step] .
  then show ?case
    using Cons.IH [of "seen @ [m]" "addByDate m groups"] by simp
qed

lemma byDate_grouped: "grouped (\<lambda>m. formatDate (date m)) ms (fold addByDate ms [])"
  using fold_addByDate_grouped [of "[]" "[]" ms] by (simp add: grouped_def)

definition clusterMessages :: "(jsstring \<times> weekCluster) list \<Rightarrow> (jsstring \<times> message list) list" where
  "clusterMessages ws = map (\<lambda>(k, w). (k, wmessages w)) ws"

lemma map_update:
  "map (\<lambda>(k, w). (k, f w)) (AList.update k v al) = AList.update k (f v) (map (\<lambda>(k, w). (k, f w)) al)"
  by (induction al) auto

lemma clusterMessages_lookup:
  "map_of (clusterMessages ws) k = map_option wmessages (map_of ws k)"
  by (simp add: clusterMessages_def map_of_map)

lemma addMessage_step:
  "clusterMessages (addMessage m ws)
     = (case map_of (clusterMessages ws) (weekKeyOf m) of
          None \<Rightarrow> AList.update (weekKeyOf m) [m] (clusterMessages ws)
        | Some g \<Rightarrow> AList.update (weekKeyOf m) (g @ [m]) (clusterMessages ws))"
proof (cases "map_of ws (weekKeyOf m)")
  case None
  then show ?thesis
    by (simp add: clusterMessages_lookup addMessage_def Let_def update_conv' update_last)
       (simp add: clusterMessages_def map_update)
next
  case (Some w)
  then show ?thesis
    by (simp add: clusterMessages_lookup addMessage_def Let_def)
       (simp add: clusterMessages_def map_update)
qed

lemma fold_addMessage_grouped:
  "grouped weekKeyOf seen (clusterMessages ws)
     \<Longrightarrow> grouped weekKeyOf (seen @ ms) (clusterMessages (fold addMessage ms ws))"
proof (induction ms arbitrary: seen ws)
  case Nil
  then show ?case by simp
next
  case (Cons m ms)
  have "grouped weekKeyOf (seen @ [m]) (clusterMessages (addMessage m ws))"
    using grouped_step [OF Cons.prems addMessage_step] .
  then show ?case
    using Cons.IH [of "seen @ [m]" "addMessage m ws"] by simp
qed

lemma clusterByWeeks_grouped: "grouped weekKeyOf ms (clusterMessages (clusterByWeeks ms))"
proof -
  have "clusterMessages (clusterByWeeks ms) = clusterMessages (fold addMessage ms [])"
    by (simp add: clusterMessages_def clusterByWeeks_def case_prod_beta)
  then show ?thesis
    using fold_addMessage_grouped [of "[]" "[]" ms] by (simp add: grouped_def clusterMessages_def)
qed

lemma cluster_holds_week:
  assumes "map_of (clusterByWeeks ms) k = Some w"
  shows "wmessages w = filter (\<lambda>m. weekKeyOf m = k) ms \<and> wmessages w \<noteq> []
         \<and> k = String_of (wyear w) @ str ''-W'' @ padStart2 (String_of (wweek w))
         \<and> dateRange w = Some (getWeekDateRange (wyear w) (wweek w))"
proof -
  have in1: "(k, w) \<in> set (clusterByWeeks ms)"
    using assms by (rule map_of_SomeD)
  then have "(k, wmessages w) \<in> set (clusterMessages (clusterByWeeks ms))"
    by (force simp: clusterMessages_def)
  then have g: "wmessages w \<noteq> [] \<and> wmessages w = filter (\<lambda>m. weekKeyOf m = k) ms"
    using clusterByWeeks_grouped [of ms] by (auto simp: grouped_def)
  have kd: "keyed (k, w)"
    using clusterByWeeks_keyed [of ms] in1 by blast
  moreover have "hd (wmessages w) \<in> set (wmessages w)"
    using g hd_in_set by blast
  ultimately have "weekKeyOf (hd (wmessages w)) = k"
    unfolding keyed_def by auto
  then have "k = String_of (wyear w) @ str ''-W'' @ padStart2 (String_of (wweek w))"
    using kd by (simp add: keyed_def weekKeyOf_def)
  moreover have "dateRange w = Some (getWeekDateRange (wyear w) (wweek w))"
    using clusterByWeeks_dateRange [of ms] in1 by force
  ultimately show ?thesis using g by blast
qed

section \<open>Properties of the export\<close>

definition fileName :: "jsstring \<Rightarrow> jsstring \<Rightarrow> jsstring" where
  "fileName personName weekKey = personName @ str ''_'' @ weekKey @ str ''.md''"

lemma fileName_inj: "fileName p k = fileName p k' \<longleftrightarrow> k = k'"
  by (simp add: fileName_def)

text \<open>The week keys of the selection that name a cluster, each with the report of its cluster.\<close>

definition selectedReports ::
  "jsstring \<Rightarrow> (jsstring \<times> weekCluster) list \<Rightarrow> jsstring list \<Rightarrow> (jsstring \<times> report) list" where
  "selectedReports personName clusters selectedWeeks =
     concat (map (\<lambda>k. case map_of clusters k of
                         None \<Rightarrow> []
                       | Some wk \<Rightarrow> (case generateWeekMarkdown personName wk of
                                       Inl _ \<Rightarrow> []
                                     | Inr r \<Rightarrow> [(fileName personName k, r)]))
                 selectedWeeks)"

lemma exportLoop_fold:
  assumes "\<forall>p \<in> set clusters. dateRange (snd p) \<noteq> None"
    and "\<forall>k \<in> set sel. k \<notin> set objectPrototypeNames"
  shows "exportLoop personName clusters sel archive
           = Inr (fold (\<lambda>(n, r) a. AList.update n r a)
                       (selectedReports personName clusters sel) archive)"
  using assms(2)
proof (induction sel arbitrary: archive)
  case Nil
  then show ?case by (simp add: selectedReports_def)
next
  case (Cons k sel)
  show ?case
  proof (cases "map_of clusters k")
    case None
    then show ?thesis using Cons.IH [of archive] Cons.prems by (simp add: selectedReports_def)
  next
    case (Some wk)
    then have "(k, wk) \<in> set clusters" by (rule map_of_SomeD)
    then have "dateRange wk \<noteq> None" using assms(1) by force
    then obtain r where r: "generateWeekMarkdown personName wk = Inr r"
      by (auto simp: generateWeekMarkdown_def split: option.splits)
    show ?thesis
      using Some r Cons.IH [of "AList.update (fileName personName k) r archive"] Cons.prems
      by (simp add: selectedReports_def fileName_def)
  qed
qed

lemma fold_update_keys:
  "fst ` set (fold (\<lambda>(n, r) a. AList.update n r a) xs archive) = fst ` set xs \<union> fst ` set archive"
proof (induction xs arbitrary: archive)
  case Nil
  then show ?case by simp
next
  case (Cons x xs)
  obtain n r where x: "x = (n, r)" by (cases x)
  show ?case
    unfolding x using Cons [of "AList.update n r archive"] by (simp add: update_keys)
qed

lemma fold_update_distinct:
  "distinct (map fst archive) \<Longrightarrow> distinct (map fst (fold (\<lambda>(n, r) a. AList.update n r a) xs archive))"
  by (induction xs arbitrary: archive) (auto simp: distinct_update)

lemma fold_update_other:
  "n \<notin> fst ` set xs \<Longrightarrow>
     map_of (fold (\<lambda>(n, r) a. AList.update n r a) xs archive) n = map_of archive n"
proof (induction xs arbitrary: archive)
  case Nil
  then show ?case by simp
next
  case (Cons y ys)
  obtain m s where y: "y = (m, s)" by (cases y)
  have "m \<noteq> n" using Cons.prems y by auto
  then show ?case
    using Cons y by (simp add: update_conv')
qed

lemma fold_update_lookup:
  assumes "\<And>n r r'. (n, r) \<in> set xs \<Longrightarrow> (n, r') \<in> set xs \<Longrightarrow> r = r'"
    and "(n, r) \<in> set xs"
  shows "map_of (fold (\<lambda>(n, r) a. AList.update n r a) xs archive) n = Some r"
  using assms
proof (induction xs arbitrary: archive)
  case Nil
  then show ?case by simp
next
  case (Cons x xs)
  obtain n0 r0 where x: "x = (n0, r0)" by (cases x)
  show ?case
  proof (cases "(n, r) \<in> set xs")
    case True
    have "\<And>n r r'. (n, r) \<in> set xs \<Longrightarrow> (n, r') \<in> set xs \<Longrightarrow> r = r'"
      using Cons.prems(1) by (meson list.set_intros(2))
    then show ?thesis
      using Cons.IH [OF _ True] x by simp
  next
    case False
    then have nx: "x = (n, r)" using Cons.prems(2) by simp
    have "n \<notin> fst ` set xs"
    proof
      assume "n \<in> fst ` set xs"
      then obtain r' where in': "(n, r') \<in> set xs" by auto
      then have "r' = r" using Cons.prems(1) [of n r' r] nx by simp
      then show False using False in' by simp
    qed
    then show ?thesis
      using fold_update_other [of n xs "AList.update n r archive"] nx by (simp add: update_conv')
  qed
qed

lemma selectedReports_entries:
  "(n, r) \<in> set (selectedReports personName clusters sel) \<longleftrightarrow>
     (\<exists>k \<in> set sel. \<exists>wk. map_of clusters k = Some wk
        \<and> generateWeekMarkdown personName wk = Inr r \<and> n = fileName personName k)"
proof (induction sel)
  case Nil
  then show ?case by (simp add: selectedReports_def)
next
  case (Cons k sel)
  have step: "selectedReports personName clusters (k # sel)
      = (case map_of clusters k of
           None \<Rightarrow> []
         | Some wk \<Rightarrow> (case generateWeekMarkdown personName wk of
                         Inl _ \<Rightarrow> []
                       | Inr r \<Rightarrow> [(fileName personName k, r)]))
        @ selectedReports personName clusters sel"
    by (simp add: selectedReports_def)
  show ?case
  proof (cases "map_of clusters k")
    case None
    then show ?thesis unfolding step using Cons by auto
  next
    case (Some wk)
    show ?thesis
    proof (cases "generateWeekMarkdown personName wk")
      case (Inl e)
      then show ?thesis unfolding step using Cons Some by auto
    next
      case (Inr r0)
      then show ?thesis unfolding step using Cons Some by (auto simp: fileName_inj)
    qed
  qed
qed

lemma selectedReports_functional:
  assumes "(n, r) \<in> set (selectedReports personName clusters sel)"
    and "(n, r') \<in> set (selectedReports personName clusters sel)"
  shows "r = r'"
proof -
  obtain k wk where k: "map_of clusters k = Some wk" "generateWeekMarkdown personName wk = Inr r"
      "n = fileName personName k"
    using assms(1) unfolding selectedReports_entries by blast
  obtain k' wk' where k': "map_of clusters k' = Some wk'" "generateWeekMarkdown personName wk' = Inr r'"
      "n = fileName personName k'"
    using assms(2) unfolding selectedReports_entries by blast
  have "k = k'" using k(3) k'(3) by (simp add: fileName_inj)
  then show ?thesis using k k' by simp
qed

lemma selectedReports_names:
  assumes "\<forall>p \<in> set clusters. dateRange (snd p) \<noteq> None"
  shows "fst ` set (selectedReports personName clusters sel)
           = fileName personName ` (set sel \<inter> fst ` set clusters)"
proof (rule set_eqI)
  fix n
  have "n \<in> fst ` set (selectedReports personName clusters sel)
          \<longleftrightarrow> (\<exists>r. (n, r) \<in> set (selectedReports personName clusters sel))"
    by force
  also have "\<dots> \<longleftrightarrow> (\<exists>k \<in> set sel. \<exists>wk. map_of clusters k = Some wk \<and> n = fileName personName k)"
  proof
    assume "\<exists>r. (n, r) \<in> set (selectedReports personName clusters sel)"
    then show "\<exists>k \<in> set sel. \<exists>wk. map_of clusters k = Some wk \<and> n = fileName personName k"
      unfolding selectedReports_entries by blast
  next
    assume "\<exists>k \<in> set sel. \<exists>wk. map_of clusters k = Some wk \<and> n = fileName personName k"
    then obtain k wk where k: "k \<in> set sel" "map_of clusters k = Some wk" "n = fileName personName k"
      by blast
    have "(k, wk) \<in> set clusters" using k(2) by (rule map_of_SomeD)
    then have "dateRange wk \<noteq> None" using assms by force
    then obtain r where "generateWeekMarkdown personName wk = Inr r"
      by (auto simp: generateWeekMarkdown_def split: option.splits)
    then show "\<exists>r. (n, r) \<in> set (selectedReports personName clusters sel)"
      unfolding selectedReports_entries using k by blast
  qed
  also have "\<dots> \<longleftrightarrow> n \<in> fileName personName ` (set sel \<inter> fst ` set clusters)"
    using map_of_Some_keys [of clusters] by blast
  finally show "n \<in> fst ` set (selectedReports personName clusters sel)
          \<longleftrightarrow> n \<in> fileName personName ` (set sel \<inter> fst ` set clusters)" .
qed

section \<open>Chronological order\<close>

definition chronological :: "message list \<Rightarrow> bool" where
  "chronological ms \<longleftrightarrow> sorted_wrt (\<lambda>a b. timestamp a \<le> timestamp b) ms"

lemma set_insertBy: "set (insertBy cmp x ys) = insert x (set ys)"
  by (induction ys) auto

lemma set_sortBy: "set (sortBy cmp xs) = set xs"
  by (induction xs) (simp_all add: sortBy_def set_insertBy)

lemma insertBy_chronological:
  "chronological ys \<Longrightarrow> chronological (insertBy byTimestamp x ys)"
  by (induction ys) (auto simp: chronological_def byTimestamp_def set_insertBy)

lemma sortBy_chronological: "chronological (sortBy byTimestamp ms)"
proof (induction ms)
  case Nil
  then show ?case by (simp add: sortBy_def chronological_def)
next
  case (Cons m ms)
  then show ?case
    using insertBy_chronological [of "sortBy byTimestamp ms" m] by (simp add: sortBy_def)
qed

lemma filter_chronological: "chronological ms \<Longrightarrow> chronological (filter P ms)"
  unfolding chronological_def by (rule sorted_wrt_filter)

lemma update_absent: "k \<notin> fst ` set al \<Longrightarrow> AList.update k v al = al @ [(k, v)]"
  by (induction al) auto

lemma update_same_image:
  "map_of al k = Some v \<Longrightarrow> f v' = f v \<Longrightarrow> map (\<lambda>p. f (snd p)) (AList.update k v' al) = map (\<lambda>p. f (snd p)) al"
  by (induction al) auto

lemma heads_step:
  assumes g: "grouped key seen groups"
    and s: "chronological (seen @ [m])"
    and h: "chronological (map (\<lambda>p. hd (snd p)) groups)"
    and step: "groups' = (case map_of groups (key m) of
                            None \<Rightarrow> AList.update (key m) [m] groups
                          | Some g \<Rightarrow> AList.update (key m) (g @ [m]) groups)"
  shows "chronological (map (\<lambda>p. hd (snd p)) groups')"
proof (cases "map_of groups (key m)")
  case None
  then have "key m \<notin> fst ` set groups" by (simp add: map_of_None_keys)
  then have eq: "groups' = groups @ [(key m, [m])]"
    using step None by (simp add: update_absent)
  have before: "\<forall>x \<in> set seen. timestamp x \<le> timestamp m"
    using s by (simp add: chronological_def sorted_wrt_append)
  have "\<forall>p \<in> set groups. hd (snd p) \<in> set seen"
  proof
    fix p assume p: "p \<in> set groups"
    obtain k0 g0 where p0: "p = (k0, g0)" by (cases p)
    have "g0 \<noteq> [] \<and> g0 = filter (\<lambda>x. key x = k0) seen"
      using g p p0 by (auto simp: grouped_def)
    then have "hd g0 \<in> set g0" "set g0 \<subseteq> set seen"
      using hd_in_set [of g0] by auto
    then show "hd (snd p) \<in> set seen" using p0 by auto
  qed
  then have "\<forall>p \<in> set groups. timestamp (hd (snd p)) \<le> timestamp m"
    using before by blast
  then show ?thesis
    unfolding eq using h by (simp add: chronological_def sorted_wrt_append)
next
  case (Some g0)
  then have "(key m, g0) \<in> set groups" by (rule map_of_SomeD)
  then have "g0 \<noteq> []" using g by (auto simp: grouped_def)
  then have "hd (g0 @ [m]) = hd g0" by simp
  then have "map (\<lambda>p. hd (snd p)) (AList.update (key m) (g0 @ [m]) groups) = map (\<lambda>p. hd (snd p)) groups"
    using update_same_image [OF Some, of hd "g0 @ [m]"] by simp
  then show ?thesis using step Some h by simp
qed

lemma fold_addByDate_heads:
  "grouped (\<lambda>m. formatDate (date m)) seen groups \<Longrightarrow> chronological (seen @ ms)
     \<Longrightarrow> chronological (map (\<lambda>p. hd (snd p)) groups)
     \<Longrightarrow> chronological (map (\<lambda>p. hd (snd p)) (fold addByDate ms groups))"
proof (induction ms arbitrary: seen groups)
  case Nil
  then show ?case by simp
next
  case (Cons m ms)
  have c1: "chronological (seen @ [m])"
    using Cons.prems(2) by (simp add: chronological_def sorted_wrt_append)
  have g1: "grouped (\<lambda>m. formatDate (date m)) (seen @ [m]) (addByDate m groups)"
    using grouped_step [OF Cons.prems(1) addByDate_step] .
  have h1: "chronological (map (\<lambda>p. hd (snd p)) (addByDate m groups))"
    using heads_step [OF Cons.prems(1) c1 Cons.prems(3) addByDate_step] .
  show ?case
    using Cons.IH [OF g1 _ h1] Cons.prems(2) by simp
qed

lemma byDate_heads:
  "chronological ms \<Longrightarrow> chronological (map (\<lambda>p. hd (snd p)) (fold addByDate ms []))"
  using fold_addByDate_heads [of "[]" "[]" ms] by (simp add: grouped_def chronological_def)

section \<open>The exported files\<close>

text \<open>
  What the claim says of the file of the week \<open>weekKey\<close>, read on the report: the name of
  the week is the year and the padded week number of the header, the header and the footer
  count the messages of that week, the messages stand under one heading per date, each
  heading with exactly the week's messages of that date in their order, and headings and
  messages follow the order of the timestamps.
\<close>

definition weekReport :: "jsstring \<Rightarrow> jsstring \<Rightarrow> message list \<Rightarrow> report \<Rightarrow> bool" where
  "weekReport personName weekKey messages r \<longleftrightarrow>
     (let weekMessages = filter (\<lambda>m. weekKeyOf m = weekKey) messages
      in partner r = personName
         \<and> weekKey = String_of (reportYear r) @ str ''-W'' @ padStart2 (String_of (weekNum r))
         \<and> headerTotal r = length weekMessages
         \<and> footerTotal r = length weekMessages
         \<and> byType r = countMessageTypes weekMessages
         \<and> grouped (\<lambda>m. formatDate (date m)) weekMessages (byDate r)
         \<and> (\<forall>p \<in> set (byDate r). chronological (snd p))
         \<and> chronological (map (\<lambda>p. hd (snd p)) (byDate r)))"

lemma generateWeekMarkdown_report:
  assumes w: "map_of (clusterByWeeks ms) k = Some w"
    and c: "chronological ms"
  shows "\<exists>r. generateWeekMarkdown personName w = Inr r \<and> weekReport personName k ms r"
proof -
  let ?wm = "filter (\<lambda>m. weekKeyOf m = k) ms"
  have h: "wmessages w = ?wm"
      "k = String_of (wyear w) @ str ''-W'' @ padStart2 (String_of (wweek w))"
      "dateRange w = Some (getWeekDateRange (wyear w) (wweek w))"
    using cluster_holds_week [OF w] by blast+
  obtain rangeStart rangeEnd where range: "getWeekDateRange (wyear w) (wweek w) = (rangeStart, rangeEnd)"
    by (cases "getWeekDateRange (wyear w) (wweek w)")
  define r where "r = \<lparr> partner = personName, weekNum = wweek w, reportYear = wyear w,
                headerTotal = length ?wm,
                headerRange = formatDateRange rangeStart rangeEnd,
                byDate = fold addByDate ?wm [],
                footerTotal = length ?wm,
                bySender = fold addBySender ?wm [],
                byType = fold countType ?wm
                           \<lparr> text_n = 0, link_n = 0, media_n = 0, sticker_n = 0, empty_n = 0 \<rparr>,
                days = (let d = ceil_div (rangeEnd - rangeStart) (1000 * 60 * 60 * 24)
                        in if d = 0 then 1 else d) \<rparr>"
  have gen: "generateWeekMarkdown personName w = Inr r"
    by (simp add: generateWeekMarkdown_def h(1,3) range r_def)
  have cw: "chronological ?wm"
    using c by (rule filter_chronological)
  have g: "grouped (\<lambda>m. formatDate (date m)) ?wm (byDate r)"
    using byDate_grouped [of ?wm] by (simp add: r_def)
  have each: "\<forall>p \<in> set (byDate r). chronological (snd p)"
  proof
    fix p assume p: "p \<in> set (byDate r)"
    obtain h0 g0 where p0: "p = (h0, g0)" by (cases p)
    have "g0 = filter (\<lambda>m. formatDate (date m) = h0) ?wm"
      using g p p0 by (auto simp: grouped_def)
    then show "chronological (snd p)"
      using cw p0 filter_chronological [of ?wm "\<lambda>m. formatDate (date m) = h0"] by simp
  qed
  have heads: "chronological (map (\<lambda>p. hd (snd p)) (byDate r))"
    using byDate_heads [OF cw] by (simp add: r_def)
  have fields: "partner r = personName" "k = String_of (reportYear r) @ str ''-W'' @ padStart2 (String_of (weekNum r))"
      "headerTotal r = length ?wm" "footerTotal r = length ?wm" "byType r = countMessageTypes ?wm"
    using h(2) by (simp_all add: r_def countMessageTypes_def)
  have "weekReport personName k ms r"
    unfolding weekReport_def Let_def using fields g each heads by blast
  then show ?thesis using gen by blast
qed

lemma processedOf_weekClusters: "weekClusters (processedOf ms) = clusterByWeeks ms"
  by (simp add: processedOf_def Let_def)

lemma sortBy_single: "sortBy cmp [m] = [m]"
  by (simp add: sortBy_def)

lemma clusterByWeeks_keys: "fst ` set (clusterByWeeks ms) = weekKeyOf ` set ms"
proof -
  have g: "grouped weekKeyOf ms (clusterMessages (clusterByWeeks ms))"
    by (rule clusterByWeeks_grouped)
  have k: "fst ` set (clusterMessages (clusterByWeeks ms)) = fst ` set (clusterByWeeks ms)"
    by (force simp: clusterMessages_def)
  have "fst ` set (clusterMessages (clusterByWeeks ms)) \<subseteq> weekKeyOf ` set ms"
  proof
    fix h assume "h \<in> fst ` set (clusterMessages (clusterByWeeks ms))"
    then obtain g0 where "(h, g0) \<in> set (clusterMessages (clusterByWeeks ms))" by auto
    then have "filter (\<lambda>m. weekKeyOf m = h) ms \<noteq> []"
      using g by (auto simp: grouped_def)
    then show "h \<in> weekKeyOf ` set ms"
      by (auto simp: filter_empty_conv)
  qed
  moreover have "weekKeyOf ` set ms \<subseteq> fst ` set (clusterMessages (clusterByWeeks ms))"
    using g by (auto simp: grouped_def)
  ultimately show ?thesis using k by auto
qed

lemma weekKey_not_inherited: "String_of y @ str ''-W'' @ s \<notin> set objectPrototypeNames"
proof -
  have "45 \<in> set (String_of y @ str ''-W'' @ s)"
    by (simp add: str_def)
  moreover have "\<forall>n \<in> set objectPrototypeNames. 45 \<notin> set n"
    by (simp add: objectPrototypeNames_def str_def)
  ultimately show ?thesis by blast
qed

lemma padStart2_two_digits:
  assumes "0 \<le> w" "w < 100"
  shows "length (padStart2 (String_of w)) = 2"
proof (cases "w < 10")
  case True
  then have "String_of w = [48 + nat w]"
    using assms by (simp add: String_of_def digits.simps)
  then show ?thesis by (simp add: padStart2_def)
next
  case False
  then have "nat w div 10 < 10" "\<not> nat w < 10"
    using assms by auto
  then have "String_of w = [48 + nat w div 10, 48 + nat w mod 10]"
    using assms by (simp add: String_of_def digits.simps [of "nat w"] digits.simps [of "nat w div 10"])
  then show ?thesis by (simp add: padStart2_def)
qed

text \<open>
  Claim C9.  For the processed data of a partner (the partner's messages sorted by time and
  clustered by week) and a selection of week keys none of which names a property inherited
  from \<open>Object.prototype\<close> (no key of the form \<open>year-Wweek\<close> does), the export returns an
  archive with exactly one file for each selected key that is a key of the partner's week
  clusters and no other file.  The file of the key \<open>k\<close> has the name
  \<open>partner_k.md\<close>, where \<open>k\<close> is the year, \<open>-W\<close> and the week number padded to two digits;
  its report counts and shows exactly the messages of that week, under one heading per
  date, in the order of the timestamps, followed by the statistics.  The files stand in the
  order of the selection, and the empty selection gives the archive without files.
\<close>

theorem exportToZip_selected_weeks:
  assumes "\<forall>k \<in> set selectedWeeks. k \<notin> set objectPrototypeNames"
  shows "\<exists>files.
           exportToZip personName (processedOf (sortBy byTimestamp messages)) selectedWeeks = Inr files
         \<and> distinct (map fst files)
         \<and> fst ` set files
             = (\<lambda>k. personName @ str ''_'' @ k @ str ''.md'')
                 ` (set selectedWeeks \<inter> fst ` set (weekClusters (processedOf (sortBy byTimestamp messages))))
         \<and> length files
             = card (set selectedWeeks \<inter> fst ` set (weekClusters (processedOf (sortBy byTimestamp messages))))
         \<and> fst ` set (weekClusters (processedOf (sortBy byTimestamp messages))) = weekKeyOf ` set messages
         \<and> (\<forall>k \<in> set selectedWeeks \<inter> weekKeyOf ` set messages.
               \<exists>r. map_of files (personName @ str ''_'' @ k @ str ''.md'') = Some r
                   \<and> weekReport personName k (sortBy byTimestamp messages) r)
         \<and> (selectedWeeks = [] \<longrightarrow> files = [])"
proof -
  let ?ms = "sortBy byTimestamp messages"
  let ?cl = "clusterByWeeks ?ms"
  let ?xs = "selectedReports personName ?cl selectedWeeks"
  let ?files = "fold (\<lambda>(n, r) a. AList.update n r a) ?xs []"
  have wc: "weekClusters (processedOf ?ms) = ?cl"
    by (rule processedOf_weekClusters)
  have fn: "(\<lambda>k. personName @ str ''_'' @ k @ str ''.md'') = fileName personName"
    by (rule ext) (simp add: fileName_def)
  have ranges: "\<forall>p \<in> set ?cl. dateRange (snd p) \<noteq> None"
    using clusterByWeeks_dateRange [of ?ms] by simp
  have run: "exportToZip personName (processedOf ?ms) selectedWeeks = Inr ?files"
    unfolding exportToZip_def wc using exportLoop_fold [OF ranges assms] .
  have dist: "distinct (map fst ?files)"
    by (rule fold_update_distinct) simp
  have names: "fst ` set ?files = fileName personName ` (set selectedWeeks \<inter> fst ` set ?cl)"
    using fold_update_keys [of ?xs "[]"] selectedReports_names [OF ranges] by simp
  have "length ?files = card (fst ` set ?files)"
    using distinct_card [OF dist] by simp
  also have "\<dots> = card (set selectedWeeks \<inter> fst ` set ?cl)"
    unfolding names by (rule card_image) (simp add: inj_on_def fileName_inj)
  finally have count: "length ?files = card (set selectedWeeks \<inter> fst ` set ?cl)" .
  have keys: "fst ` set ?cl = weekKeyOf ` set messages"
    by (simp add: clusterByWeeks_keys set_sortBy)
  have reports: "\<forall>k \<in> set selectedWeeks \<inter> weekKeyOf ` set messages.
               \<exists>r. map_of ?files (fileName personName k) = Some r \<and> weekReport personName k ?ms r"
  proof
    fix k assume k: "k \<in> set selectedWeeks \<inter> weekKeyOf ` set messages"
    then have "k \<in> fst ` set ?cl" using keys by simp
    then obtain w where w: "map_of ?cl k = Some w"
      using map_of_Some_keys [of ?cl k] by blast
    obtain r where r: "generateWeekMarkdown personName w = Inr r" "weekReport personName k ?ms r"
      using generateWeekMarkdown_report [OF w sortBy_chronological] by blast
    have "(fileName personName k, r) \<in> set ?xs"
      unfolding selectedReports_entries using k w r(1) by blast
    then have "map_of ?files (fileName personName k) = Some r"
      using fold_update_lookup [of ?xs "fileName personName k" r "[]"] selectedReports_functional
      by blast
    then show "\<exists>r. map_of ?files (fileName personName k) = Some r \<and> weekReport personName k ?ms r"
      using r(2) by blast
  qed
  have none: "selectedWeeks = [] \<longrightarrow> ?files = []"
    by (simp add: selectedReports_def)
  show ?thesis
    unfolding wc fn using run dist names count keys reports [unfolded fileName_def] none
    by - (rule exI [of _ ?files], intro conjI, assumption+)
qed


lemma december_dates:
  "formatDate (date decemberMessage) = str ''December 30, 2024''"
  "formatDateRange (Date_ymd 2024 0 1) (Date_ymd 2024 0 7) = str ''January 1, 2024 - 7''"
  "ceil_div (Date_ymd 2024 0 7 - Date_ymd 2024 0 1) 86400000 = 6"
  by (simp_all add: decemberMessage_def messageOf_def) code_simp+

definition decemberReport :: report where
  "decemberReport =
     \<lparr> partner = str ''bob'', weekNum = 1, reportYear = 2024, headerTotal = 1,
       headerRange = str ''January 1, 2024 - 7'',
       byDate = [(str ''December 30, 2024'', [decemberMessage])],
       footerTotal = 1,
       bySender = [(JStr (str ''bob''), 1)],
       byType = \<lparr> text_n = 1, link_n = 0, media_n = 0, sticker_n = 0, empty_n = 0 \<rparr>,
       days = 6 \<rparr>"

lemma december_senders: "sender decemberMessage = JStr (str ''bob'')" "mtype decemberMessage = Text"
  by (simp_all add: decemberMessage_def messageOf_def)

lemma december_export:
  "exportToZip (str ''bob'') (processedOf (sortBy byTimestamp [decemberMessage]))
      [str ''2024-W01'', str ''2024-W02'']
     = Inr [(str ''bob_2024-W01.md'', decemberReport)]"
proof -
  have names: "str ''2024-W02'' \<noteq> str ''2024-W01''" "str ''2024-W02'' \<notin> set objectPrototypeNames"
      "str ''bob'' @ str ''_'' @ str ''2024-W01'' @ str ''.md'' = str ''bob_2024-W01.md''"
    by (simp_all add: str_def objectPrototypeNames_def)
  have r: "generateWeekMarkdown (str ''bob'')
             \<lparr> wyear = 2024, wweek = 1, wmessages = [decemberMessage], wcount = Suc 0,
               dateRange = Some (Date_ymd 2024 0 1, Date_ymd 2024 0 7) \<rparr> = Inr decemberReport"
    by (simp add: generateWeekMarkdown_def december_dates addByDate_def addBySender_def
        countType_def december_senders decemberReport_def Let_def)
  show ?thesis
    unfolding exportToZip_def processedOf_weekClusters sortBy_single december_cluster
    by (simp add: names r)
qed

theorem exportToZip_selected_weeks_witness:
  "str ''2024-W01'' \<notin> set objectPrototypeNames
   \<and> str ''2024-W02'' \<notin> set objectPrototypeNames
   \<and> exportToZip (str ''bob'') (processedOf (sortBy byTimestamp [decemberMessage]))
        [str ''2024-W01'', str ''2024-W02'']
       = Inr [(str ''bob_2024-W01.md'', decemberReport)]
   \<and> weekReport (str ''bob'') (str ''2024-W01'') (sortBy byTimestamp [decemberMessage]) decemberReport"
proof -
  have sel: "\<forall>k \<in> set [str ''2024-W01'', str ''2024-W02'']. k \<notin> set objectPrototypeNames"
    by (simp add: objectPrototypeNames_def str_def)
  have k: "str ''2024-W01'' \<in> set [str ''2024-W01'', str ''2024-W02''] \<inter> weekKeyOf ` set [decemberMessage]"
    by (simp add: december_key)
  have name: "str ''bob'' @ str ''_'' @ str ''2024-W01'' @ str ''.md'' = str ''bob_2024-W01.md''"
    by (simp add: str_def)
  obtain files where files:
      "exportToZip (str ''bob'') (processedOf (sortBy byTimestamp [decemberMessage]))
         [str ''2024-W01'', str ''2024-W02''] = Inr files"
      "\<forall>k \<in> set [str ''2024-W01'', str ''2024-W02''] \<inter> weekKeyOf ` set [decemberMessage].
               \<exists>r. map_of files (str ''bob'' @ str ''_'' @ k @ str ''.md'') = Some r
                   \<and> weekReport (str ''bob'') k (sortBy byTimestamp [decemberMessage]) r"
    using exportToZip_selected_weeks [OF sel, of "str ''bob''" "[decemberMessage]"]
    by - (erule exE, (erule conjE)+, rule that, assumption+)
  obtain r where r: "map_of files (str ''bob_2024-W01.md'') = Some r"
      "weekReport (str ''bob'') (str ''2024-W01'') (sortBy byTimestamp [decemberMessage]) r"
    using files(2) k unfolding name [symmetric] by blast
  have "files = [(str ''bob_2024-W01.md'', decemberReport)]"
    using files(1) december_export by simp
  then have "r = decemberReport"
    using r(1) by simp
  then show ?thesis
    using sel r(2) december_export by simp
qed

text \<open>A selected name that the week clusters inherit stops the export.\<close>

lemma exportToZip_inherited_name:
  "exportToZip personName (processedOf (sortBy byTimestamp messages)) [str ''constructor'']
     = Inl TypeError"
proof -
  have "str ''constructor'' \<notin> weekKeyOf ` set (sortBy byTimestamp messages)"
  proof
    assume "str ''constructor'' \<in> weekKeyOf ` set (sortBy byTimestamp messages)"
    then obtain m where "str ''constructor'' = weekKeyOf m" by blast
    then have "45 \<in> set (str ''constructor'')"
      by (simp add: weekKeyOf_def str_def)
    then show False by (simp add: str_def)
  qed
  then have "map_of (clusterByWeeks (sortBy byTimestamp messages)) (str ''constructor'') = None"
    by (simp add: map_of_None_keys clusterByWeeks_keys)
  then show ?thesis
    by (simp add: exportToZip_def processedOf_weekClusters objectPrototypeNames_def)
qed

section \<open>Processor: response times, initiator score, gaps and streaks\<close>

text \<open>
  \<open>Processor.calculateMedian\<close> (part_000, lines 448-458).  The numbers are exact rationals
  where the source has doubles.  \<open>mid\<close> is below the length, and \<open>mid - 1\<close> is read only
  when the length is even and not zero, so both reads find an element.
\<close>

definition calculateMedian :: "rat list \<Rightarrow> rat" where
  "calculateMedian arr =
     (if length arr = 0 then 0
      else
        let sortedArr = sort arr;
            mid = length sortedArr div 2
        in if length sortedArr mod 2 = 0
           then (sortedArr ! (mid - 1) + sortedArr ! mid) / 2
           else sortedArr ! mid)"

text \<open>
  \<open>Processor.calculateResponseTimes\<close> (part_000, lines 401-441).  The loop visits the
  messages at the positions 1 and above, each with its predecessor.  The two senders of a
  pair belong to two messages, and the sender at a position above 0 is not the \<open>From\<close> of
  the first message, so no comparison is between an object and itself.
\<close>

record responseTimes =
  yourAverage :: rat
  theirAverage :: rat
  yourMedian :: rat
  theirMedian :: rat

fun responseLoop ::
  "json \<times> bool \<Rightarrow> message \<Rightarrow> message list \<Rightarrow> rat list \<times> rat list \<Rightarrow> rat list \<times> rat list" where
  "responseLoop resolved prevMsg [] acc = acc"
| "responseLoop resolved prevMsg (currMsg # rest) (you, them) =
     responseLoop resolved currMsg rest
       (if \<not> strictEquals (sender prevMsg) (sender currMsg) False
        then
          let timeDiff = of_int (timestamp currMsg - timestamp prevMsg) / (1000 * 60)
          in if strictEquals (sender currMsg) (fst resolved) False
             then (you @ [timeDiff], them)
             else (you, them @ [timeDiff])
        else (you, them))"

definition average :: "rat list \<Rightarrow> rat" where
  "average xs = (if length xs > 0 then fold (\<lambda>b a. a + b) xs 0 / of_nat (length xs) else 0)"

definition calculateResponseTimes :: "jsstring option \<Rightarrow> message list \<Rightarrow> responseTimes" where
  "calculateResponseTimes uid messages =
     (if length messages = 0
      then \<lparr> yourAverage = 0, theirAverage = 0, yourMedian = 0, theirMedian = 0 \<rparr>
      else
        let resolved = getUserIdentity uid messages;
            (you, them) = (case messages of
                             [] \<Rightarrow> ([], [])
                           | first # rest \<Rightarrow> responseLoop resolved first rest ([], []))
        in \<lparr> yourAverage = average you, theirAverage = average them,
             yourMedian = calculateMedian you, theirMedian = calculateMedian them \<rparr>)"

text \<open>
  \<open>Processor.calculateInitiatorScore\<close> (part_000, lines 602-643).  The percentages are
  the numbers handed to \<open>toFixed(1)\<close>.  The first message is compared with the identity
  after the loop; its \<open>From\<close> is the identity itself when the fallback of
  \<open>getUserIdentity\<close> returned it.
\<close>

record initiatorScore =
  youInitiated :: nat
  themInitiated :: nat
  yourShare :: rat
  theirShare :: rat

definition GAP_THRESHOLD :: int where
  "GAP_THRESHOLD = 6 * 60 * 60 * 1000"

fun initiatorLoop :: "json \<times> bool \<Rightarrow> message \<Rightarrow> message list \<Rightarrow> nat \<times> nat \<Rightarrow> nat \<times> nat" where
  "initiatorLoop resolved prevMsg [] acc = acc"
| "initiatorLoop resolved prevMsg (currMsg # rest) (you, them) =
     initiatorLoop resolved currMsg rest
       (if timestamp currMsg - timestamp prevMsg > GAP_THRESHOLD
        then if strictEquals (sender currMsg) (fst resolved) False
             then (you + 1, them) else (you, them + 1)
        else (you, them))"

definition calculateInitiatorScore :: "jsstring option \<Rightarrow> message list \<Rightarrow> initiatorScore" where
  "calculateInitiatorScore uid messages =
     (if length messages = 0
      then \<lparr> youInitiated = 0, themInitiated = 0, yourShare = 0, theirShare = 0 \<rparr>
      else
        let resolved = getUserIdentity uid messages;
            (you, them) = (case messages of
                             [] \<Rightarrow> (0, 0)
                           | first # rest \<Rightarrow> initiatorLoop resolved first rest (0, 0));
            (youInit, themInit) =
               (case messages of
                  [] \<Rightarrow> (you, them)
                | first # _ \<Rightarrow>
                    if strictEquals (sender first) (fst resolved) (snd resolved)
                    then (you + 1, them) else (you, them + 1));
            total = youInit + themInit
        in \<lparr> youInitiated = youInit, themInitiated = themInit,
             yourShare = (if total > 0 then (of_nat youInit / of_nat total) * 100 else 0),
             theirShare = (if total > 0 then (of_nat themInit / of_nat total) * 100 else 0) \<rparr>)"

text \<open>
  \<open>Processor.calculateGapsAndStreaks\<close> (part_000, lines 514-595).  \<open>Date_new\<close> is the
  host's \<open>new Date(string)\<close> on the date keys, \<open>None\<close> for an invalid date, and \<open>now\<close> is
  the host's clock.  The date keys are sorted as \<open>sort()\<close> sorts strings, by their code
  units; the keys are distinct, so the sorted order does not depend on the algorithm.
\<close>

record gap =
  gapStart :: int
  gapEnd :: int
  gapDays :: int

record gapsAndStreaks =
  longestGap :: int
  currentStreak :: nat
  longestStreak :: nat
  gaps :: "gap list"

definition dateKeyOf :: "message \<Rightarrow> jsstring" where
  "dateKeyOf msg =
     String_of (year msg) @ str ''-'' @ padStart2 (String_of (month msg + 1)) @ str ''-''
       @ padStart2 (String_of (day msg))"

definition addDate :: "message \<Rightarrow> jsstring list \<Rightarrow> jsstring list" where
  "addDate msg uniqueDates =
     (if dateKeyOf msg \<in> set uniqueDates then uniqueDates else uniqueDates @ [dateKeyOf msg])"

fun codeUnitsLess :: "jsstring \<Rightarrow> jsstring \<Rightarrow> bool" where
  "codeUnitsLess [] [] = False"
| "codeUnitsLess [] (y # ys) = True"
| "codeUnitsLess (x # xs) [] = False"
| "codeUnitsLess (x # xs) (y # ys) = (x < y \<or> (x = y \<and> codeUnitsLess xs ys))"

definition compareStrings :: "jsstring \<Rightarrow> jsstring \<Rightarrow> int" where
  "compareStrings a b = (if codeUnitsLess a b then - 1 else if codeUnitsLess b a then 1 else 0)"

fun gapLoop :: "message \<Rightarrow> message list \<Rightarrow> gap list \<Rightarrow> gap list" where
  "gapLoop prevMsg [] acc = acc"
| "gapLoop prevMsg (currMsg # rest) acc =
     gapLoop currMsg rest
       (if timestamp currMsg - timestamp prevMsg > 1000 * 60 * 60 * 24
        then acc @ [\<lparr> gapStart = date prevMsg, gapEnd = date currMsg,
                     gapDays = (timestamp currMsg - timestamp prevMsg) div (1000 * 60 * 60 * 24) \<rparr>]
        else acc)"

definition oneDayApart :: "(jsstring \<Rightarrow> int option) \<Rightarrow> jsstring \<Rightarrow> jsstring \<Rightarrow> bool" where
  "oneDayApart Date_new prevKey currKey =
     (case (Date_new prevKey, Date_new currKey) of
        (Some prevDate, Some currDate) \<Rightarrow> currDate - prevDate = 1000 * 60 * 60 * 24
      | _ \<Rightarrow> False)"

text \<open>The loop of the longest streak; the state is \<open>(longestStreak, tempStreak)\<close>.\<close>

fun streakLoop ::
  "(jsstring \<Rightarrow> int option) \<Rightarrow> jsstring \<Rightarrow> jsstring list \<Rightarrow> nat \<times> nat \<Rightarrow> nat \<times> nat" where
  "streakLoop Date_new prevKey [] acc = acc"
| "streakLoop Date_new prevKey (currKey # rest) (longest, temp) =
     streakLoop Date_new currKey rest
       (if oneDayApart Date_new prevKey currKey then (longest, temp + 1)
        else ((if temp > longest then temp else longest), 1))"

text \<open>The loop of the current streak, from the last date key backwards.\<close>

fun currentLoop :: "(jsstring \<Rightarrow> int option) \<Rightarrow> jsstring list \<Rightarrow> nat \<Rightarrow> nat" where
  "currentLoop Date_new (currKey # prevKey # rest) n =
     (if oneDayApart Date_new prevKey currKey then currentLoop Date_new (prevKey # rest) (n + 1)
      else n)"
| "currentLoop Date_new [currKey] n = n"
| "currentLoop Date_new [] n = n"

definition calculateGapsAndStreaks ::
  "(jsstring \<Rightarrow> int option) \<Rightarrow> int \<Rightarrow> message list \<Rightarrow> gapsAndStreaks" where
  "calculateGapsAndStreaks Date_new now messages =
     (if length messages = 0
      then \<lparr> longestGap = 0, currentStreak = 0, longestStreak = 0, gaps = [] \<rparr>
      else
        let uniqueDates = fold addDate messages [];
            sortedDates = sortBy compareStrings uniqueDates;
            allGaps = (case messages of [] \<Rightarrow> [] | first # rest \<Rightarrow> gapLoop first rest []);
            (longest0, temp) = (case sortedDates of
                                  [] \<Rightarrow> (1, 1)
                                | d # ds \<Rightarrow> streakLoop Date_new d ds (1, 1));
            longest = (if temp > longest0 then temp else longest0);
            lastDate = date (last messages);
            current = (if now - lastDate \<le> 1000 * 60 * 60 * 24
                       then currentLoop Date_new (rev sortedDates) 1
                       else 0);
            longestGapDays = (case map gapDays allGaps of
                                [] \<Rightarrow> 0
                              | g # gs \<Rightarrow> fold max gs g)
        in \<lparr> longestGap = longestGapDays, currentStreak = current, longestStreak = longest,
             gaps = take 5 (sortBy (\<lambda>a b. gapDays b - gapDays a) allGaps) \<rparr>)"

section \<open>Engine functions on the empty list\<close>










text \<open>
  The engine functions on lists that are not empty.  The dates of the first example are the
  first three days of January 2024 and the tenth, each at noon, seen on the first of
  February; \<open>exampleDateNew\<close> reads a date key as the midnight of its day.
\<close>

definition digitsValue :: "jsstring \<Rightarrow> int" where
  "digitsValue s = fold (\<lambda>c n. 10 * n + (int c - 48)) s 0"

definition exampleDateNew :: "jsstring \<Rightarrow> int option" where
  "exampleDateNew s =
     (if length s = 10 \<and> s ! 4 = 45 \<and> s ! 7 = 45
      then Some (days_from_civil (digitsValue (take 4 s)) (digitsValue (take 2 (drop 5 s)))
                   (digitsValue (drop 8 s)) * msPerDay)
      else None)"

definition streakMessages :: "message list" where
  "streakMessages = map msgAt [Date_ymd 2024 0 1 + 43200000, Date_ymd 2024 0 2 + 43200000,
                               Date_ymd 2024 0 3 + 43200000, Date_ymd 2024 0 10 + 43200000]"

lemma gapsAndStreaks_example:
  "calculateGapsAndStreaks exampleDateNew (Date_ymd 2024 1 1) streakMessages
     = \<lparr> longestGap = 7, currentStreak = 0, longestStreak = 3,
         gaps = [\<lparr> gapStart = 1704283200000, gapEnd = 1704888000000, gapDays = 7 \<rparr>] \<rparr>"
  by code_simp

lemma responses_example:
  "calculateResponseTimes (Some (str ''you''))
     [msgFrom ''bob'', (msgFrom ''you'')\<lparr> timestamp := 300000 \<rparr>,
      (msgFrom ''bob'')\<lparr> timestamp := 420000 \<rparr>]
     = \<lparr> yourAverage = 5, theirAverage = 2, yourMedian = 5, theirMedian = 2 \<rparr>"
  "calculateInitiatorScore (Some (str ''you''))
     [msgFrom ''bob'', (msgFrom ''you'')\<lparr> timestamp := 300000 \<rparr>,
      (msgFrom ''bob'')\<lparr> timestamp := 420000000 \<rparr>]
     = \<lparr> youInitiated = 0, themInitiated = 2, yourShare = 0, theirShare = 100 \<rparr>"
  by code_simp+

end
